theory Spec2Isabelle
  imports Complex_Main "HOL-Library.Sublist"
begin

section \<open>Outcomes of JavaScript calls\<close>

text \<open>
  A JavaScript call either completes or throws. A throw does not roll back the mutations
  made before it, so both outcomes carry the state reached.
\<close>

datatype error = TypeError string | SyntaxError string

datatype 'st outcome = Done 'st | Threw error 'st

fun state_of :: "'st outcome \<Rightarrow> 'st" where
  "state_of (Done s) = s"
| "state_of (Threw e s) = s"

fun completed :: "'st outcome \<Rightarrow> bool" where
  "completed (Done s) = True"
| "completed (Threw e s) = False"

section \<open>Commands and the composite command (MultiCmdsCommand)\<close>

text \<open>
  A command is an object with an \<open>execute\<close> and an \<open>undo\<close> method; the composite calls
  them through dynamic dispatch, so a member is modelled by its two methods as state
  transformers.
\<close>

record 'st command =
  execute :: "'st \<Rightarrow> 'st outcome"
  undo :: "'st \<Rightarrow> 'st outcome"

text \<open>\<open>for (const cmd of this.commands) cmd.execute()\<close>: a throw leaves the loop.\<close>

fun MultiCmds_execute :: "'st command list \<Rightarrow> 'st \<Rightarrow> 'st outcome" where
  "MultiCmds_execute [] s = Done s"
| "MultiCmds_execute (cmd # cmds) s =
     (case execute cmd s of
        Threw e s' \<Rightarrow> Threw e s'
      | Done s' \<Rightarrow> MultiCmds_execute cmds s')"

text \<open>
  \<open>for (let i = this.commands.length - 1; i >= 0; i--) this.commands[i].undo()\<close>.
  The first argument of \<open>undo_loop\<close> is \<open>i + 1\<close>; every index read is below the length.
\<close>

fun undo_loop :: "nat \<Rightarrow> 'st command list \<Rightarrow> 'st \<Rightarrow> 'st outcome" where
  "undo_loop 0 cmds s = Done s"
| "undo_loop (Suc i) cmds s =
     (case undo (cmds ! i) s of
        Threw e s' \<Rightarrow> Threw e s'
      | Done s' \<Rightarrow> undo_loop i cmds s')"

definition MultiCmds_undo :: "'st command list \<Rightarrow> 'st \<Rightarrow> 'st outcome" where
  "MultiCmds_undo cmds s = undo_loop (length cmds) cmds s"

definition MultiCmdsCommand :: "'st command list \<Rightarrow> 'st command" where
  "MultiCmdsCommand cmds = \<lparr>execute = MultiCmds_execute cmds, undo = MultiCmds_undo cmds\<rparr>"

subsection \<open>Observing the order of the calls\<close>

datatype call = ExecuteCall nat | UndoCall nat

text \<open>
  \<open>logged i c\<close> behaves as \<open>c\<close> on the first component of the state and records, at the
  moment a method is entered, which member was called and how.
\<close>

fun with_log :: "call list \<Rightarrow> 'st outcome \<Rightarrow> ('st \<times> call list) outcome" where
  "with_log tr (Done s) = Done (s, tr)"
| "with_log tr (Threw e s) = Threw e (s, tr)"

definition logged :: "nat \<Rightarrow> 'st command \<Rightarrow> ('st \<times> call list) command" where
  "logged i c =
     \<lparr>execute = (\<lambda>(s, tr). with_log (tr @ [ExecuteCall i]) (execute c s)),
      undo = (\<lambda>(s, tr). with_log (tr @ [UndoCall i]) (undo c s))\<rparr>"

definition logged_members :: "'st command list \<Rightarrow> ('st \<times> call list) command list" where
  "logged_members cmds = map (\<lambda>(i, c). logged i c) (enumerate 0 cmds)"

definition never_throws :: "('st \<Rightarrow> 'st outcome) \<Rightarrow> bool" where
  "never_throws f = (\<forall>s. completed (f s))"

definition execute_calls :: "'st command list \<Rightarrow> 'st \<Rightarrow> call list" where
  "execute_calls cmds s = snd (state_of (MultiCmds_execute (logged_members cmds) (s, [])))"

definition undo_calls :: "'st command list \<Rightarrow> 'st \<Rightarrow> call list" where
  "undo_calls cmds s = snd (state_of (MultiCmds_undo (logged_members cmds) (s, [])))"

section \<open>JavaScript values\<close>

text \<open>
  Numbers are finite decimals \<open>mantissa * 10 ^ exponent\<close> (every finite double is one);
  \<open>NaN\<close> and the infinities are not modelled. Objects are association lists in
  insertion order.
\<close>

datatype number = Dec int int

datatype jsval =
    Undefined
  | Null
  | Bool bool
  | Num number
  | Str string
  | Arr "jsval list"
  | Obj "(string \<times> jsval) list"

definition number_value :: "number \<Rightarrow> real" where
  "number_value n =
     (case n of Dec m e \<Rightarrow>
        if 0 \<le> e then of_int m * 10 ^ nat e else of_int m / 10 ^ nat (- e))"

definition num :: "int \<Rightarrow> jsval" where
  "num i = Num (Dec i 0)"

text \<open>The truthiness test of \<open>if (v)\<close>, \<open>a || b\<close> and \<open>c ? a : b\<close>.\<close>

fun truthy :: "jsval \<Rightarrow> bool" where
  "truthy Undefined = False"
| "truthy Null = False"
| "truthy (Bool b) = b"
| "truthy (Num (Dec m e)) = (m \<noteq> 0)"
| "truthy (Str s) = (s \<noteq> [])"
| "truthy (Arr xs) = True"
| "truthy (Obj ps) = True"

subsection \<open>Decimal digits\<close>

definition digit_char :: "nat \<Rightarrow> char" where
  "digit_char d = char_of (48 + d)"

fun show_nat :: "nat \<Rightarrow> string" where
  "show_nat n = (if n < 10 then [digit_char n] else show_nat (n div 10) @ [digit_char (n mod 10)])"

declare show_nat.simps [simp del]

definition show_int :: "int \<Rightarrow> string" where
  "show_int i = (if i < 0 then CHR ''-'' # show_nat (nat (- i)) else show_nat (nat i))"

text \<open>
  The text of a number. It is written in the exponent form of the JSON grammar
  (\<open>5e-1\<close> for one half), which \<open>JSON.parse\<close> reads as the same number.
\<close>

definition show_number :: "number \<Rightarrow> string" where
  "show_number n = (case n of Dec m e \<Rightarrow> show_int m @ CHR ''e'' # show_int e)"

subsection \<open>Property keys and property reads\<close>

text \<open>Joining strings with a separator, as \<open>Array.prototype.join\<close> does.\<close>

fun join :: "string \<Rightarrow> string list \<Rightarrow> string" where
  "join sep [] = []"
| "join sep [s] = s"
| "join sep (s # t # ss) = s @ sep @ join sep (t # ss)"

text \<open>
  \<open>ToString\<close> of a value used as a property key (\<open>obj[key]\<close>, \<open>key in obj\<close>). Inside an
  array, \<open>null\<close> and \<open>undefined\<close> elements give the empty string.
\<close>

fun ToPropertyKey :: "jsval \<Rightarrow> string" where
  "ToPropertyKey Undefined = ''undefined''"
| "ToPropertyKey Null = ''null''"
| "ToPropertyKey (Bool b) = (if b then ''true'' else ''false'')"
| "ToPropertyKey (Num n) = show_number n"
| "ToPropertyKey (Str s) = s"
| "ToPropertyKey (Arr xs) =
     join '','' (map (\<lambda>v. case v of Undefined \<Rightarrow> [] | Null \<Rightarrow> [] | _ \<Rightarrow> ToPropertyKey v) xs)"
| "ToPropertyKey (Obj ps) = ''[object Object]''"

text \<open>
  The properties every object literal inherits from \<open>Object.prototype\<close>. Each of them
  is a function or an object, hence truthy, and found by \<open>obj[key]\<close> and \<open>key in obj\<close>.
\<close>

definition Object_prototype_names :: "string list" where
  "Object_prototype_names =
     [''constructor'', ''__defineGetter__'', ''__defineSetter__'', ''hasOwnProperty'',
      ''__lookupGetter__'', ''__lookupSetter__'', ''isPrototypeOf'', ''propertyIsEnumerable'',
      ''toString'', ''valueOf'', ''__proto__'', ''toLocaleString'']"

text \<open>
  \<open>v.k\<close> for the data keys the editor reads (none of them a name of a prototype): a
  \<open>TypeError\<close> on \<open>null\<close> and \<open>undefined\<close>, the own property of an object, and
  \<open>undefined\<close> where there is none.
\<close>

fun get_member :: "jsval \<Rightarrow> string \<Rightarrow> error + jsval" where
  "get_member Undefined k = Inl (TypeError (''Cannot read properties of undefined (reading '' @ k @ '')''))"
| "get_member Null k = Inl (TypeError (''Cannot read properties of null (reading '' @ k @ '')''))"
| "get_member (Obj ps) k = (case map_of ps k of Some v \<Rightarrow> Inr v | None \<Rightarrow> Inr Undefined)"
| "get_member v k = Inr Undefined"

text \<open>\<open>array[i]\<close> as \<open>Vector3.fromArray\<close> and \<open>Euler.fromArray\<close> read it.\<close>

fun get_index :: "jsval \<Rightarrow> nat \<Rightarrow> error + jsval" where
  "get_index Undefined i = Inl (TypeError ''Cannot read properties of undefined'')"
| "get_index Null i = Inl (TypeError ''Cannot read properties of null'')"
| "get_index (Arr xs) i = Inr (if i < length xs then xs ! i else Undefined)"
| "get_index (Str s) i = Inr (if i < length s then Str [s ! i] else Undefined)"
| "get_index (Obj ps) i = (case map_of ps (show_nat i) of Some v \<Rightarrow> Inr v | None \<Rightarrow> Inr Undefined)"
| "get_index v i = Inr Undefined"

text \<open>Storing a property in an object: an existing one keeps its place.\<close>

fun obj_set :: "(string \<times> jsval) list \<Rightarrow> string \<Rightarrow> jsval \<Rightarrow> (string \<times> jsval) list" where
  "obj_set [] k v = [(k, v)]"
| "obj_set ((k', v') # ps) k v = (if k' = k then (k, v) # ps else (k', v') # obj_set ps k v)"


section \<open>JSON text\<close>

text \<open>
  \<open>JSON.stringify\<close> and \<open>JSON.parse\<close> of the platform, which \<open>exportToJSON\<close>,
  \<open>parseJSON\<close> and the deep copies of the serializer call. Strings are over the code
  units below 256.
\<close>

subsection \<open>JSON.stringify\<close>

definition hex_char :: "nat \<Rightarrow> char" where
  "hex_char d = (if d < 10 then char_of (48 + d) else char_of (87 + d))"

definition backslash :: char where
  "backslash = CHR 0x5C"

definition dquote :: char where
  "dquote = CHR 0x22"

definition escape_char :: "char \<Rightarrow> string" where
  "escape_char c =
     (if c = dquote then [backslash, dquote]
      else if c = backslash then [backslash, backslash]
      else if c = CHR 0x08 then [backslash, CHR ''b'']
      else if c = CHR 0x0C then [backslash, CHR ''f'']
      else if c = CHR 0x0A then [backslash, CHR ''n'']
      else if c = CHR 0x0D then [backslash, CHR ''r'']
      else if c = CHR 0x09 then [backslash, CHR ''t'']
      else if (of_char c :: nat) < 32 then
        [backslash, CHR ''u'', CHR ''0'', CHR ''0'', hex_char (of_char c div 16), hex_char (of_char c mod 16)]
      else [c])"

definition quote :: "string \<Rightarrow> string" where
  "quote s = dquote # concat (map escape_char s) @ [dquote]"

text \<open>
  The line break and indentation before an item at depth \<open>ind\<close>, and the separator
  after a key, for the indentation width \<open>gap\<close> (\<open>0\<close> for the compact form).
\<close>

definition newline :: "nat \<Rightarrow> nat \<Rightarrow> string" where
  "newline gap ind = (if gap = 0 then [] else CHR 0x0A # replicate ind CHR '' '')"

definition colon :: "nat \<Rightarrow> string" where
  "colon gap = (if gap = 0 then '':'' else '': '')"

text \<open>
  \<open>ser_elems\<close> and \<open>ser_fields\<close> write every item with a leading comma, which the
  caller drops from the first. An \<open>undefined\<close> element of an array is written \<open>null\<close>, a
  property whose value is \<open>undefined\<close> is left out.
\<close>

fun ser :: "nat \<Rightarrow> nat \<Rightarrow> jsval \<Rightarrow> string"
  and ser_elems :: "nat \<Rightarrow> nat \<Rightarrow> jsval list \<Rightarrow> string"
  and ser_fields :: "nat \<Rightarrow> nat \<Rightarrow> (string \<times> jsval) list \<Rightarrow> string" where
  "ser gap ind Undefined = ''null''"
| "ser gap ind Null = ''null''"
| "ser gap ind (Bool b) = (if b then ''true'' else ''false'')"
| "ser gap ind (Num n) = show_number n"
| "ser gap ind (Str s) = quote s"
| "ser gap ind (Arr xs) =
     (if xs = [] then ''[]''
      else CHR ''['' # tl (ser_elems gap (ind + gap) xs) @ newline gap ind @ '']'')"
| "ser gap ind (Obj ps) =
     (if ser_fields gap (ind + gap) ps = [] then ''{}''
      else CHR ''{'' # tl (ser_fields gap (ind + gap) ps) @ newline gap ind @ ''}'')"
| "ser_elems gap ind [] = []"
| "ser_elems gap ind (x # xs) = CHR '','' # newline gap ind @ ser gap ind x @ ser_elems gap ind xs"
| "ser_fields gap ind [] = []"
| "ser_fields gap ind ((k, v) # ps) =
     (if v = Undefined then ser_fields gap ind ps
      else CHR '','' # newline gap ind @ quote k @ colon gap @ ser gap ind v @ ser_fields gap ind ps)"

text \<open>\<open>JSON.stringify(value, null, gap)\<close>; \<open>None\<close> is the result \<open>undefined\<close>.\<close>

definition JSON_stringify :: "nat \<Rightarrow> jsval \<Rightarrow> string option" where
  "JSON_stringify gap v = (if v = Undefined then None else Some (ser gap 0 v))"

subsection \<open>JSON.parse\<close>

definition is_ws :: "char \<Rightarrow> bool" where
  "is_ws c = (c = CHR '' '' \<or> c = CHR 0x0A \<or> c = CHR 0x0D \<or> c = CHR 0x09)"

definition skip_ws :: "string \<Rightarrow> string" where
  "skip_ws cs = dropWhile is_ws cs"

definition is_digit :: "char \<Rightarrow> bool" where
  "is_digit c = (48 \<le> (of_char c :: nat) \<and> (of_char c :: nat) \<le> 57)"

definition digit_val :: "char \<Rightarrow> nat" where
  "digit_val c = of_char c - 48"

definition nat_of_digits :: "string \<Rightarrow> nat" where
  "nat_of_digits ds = foldl (\<lambda>acc c. 10 * acc + digit_val c) 0 ds"

definition hex_val :: "char \<Rightarrow> nat option" where
  "hex_val c =
     (let n = (of_char c :: nat) in
      if 48 \<le> n \<and> n \<le> 57 then Some (n - 48)
      else if 97 \<le> n \<and> n \<le> 102 then Some (n - 87)
      else if 65 \<le> n \<and> n \<le> 70 then Some (n - 55)
      else None)"

text \<open>\<open>\<bslash>uXXXX\<close>: the code unit of four hexadecimal digits.\<close>

definition unicode_escape :: "char \<Rightarrow> char \<Rightarrow> char \<Rightarrow> char \<Rightarrow> char option" where
  "unicode_escape a b c d =
     (case (hex_val a, hex_val b, hex_val c, hex_val d) of
        (Some h3, Some h2, Some h1, Some h0) \<Rightarrow>
          (let n = ((h3 * 16 + h2) * 16 + h1) * 16 + h0 in
           if n < 256 then Some (char_of n) else None)
      | _ \<Rightarrow> None)"

definition simple_escape :: "char \<Rightarrow> char option" where
  "simple_escape c =
     (if c = dquote then Some dquote
      else if c = backslash then Some backslash
      else if c = CHR ''/'' then Some CHR ''/''
      else if c = CHR ''b'' then Some (CHR 0x08)
      else if c = CHR ''f'' then Some (CHR 0x0C)
      else if c = CHR ''n'' then Some (CHR 0x0A)
      else if c = CHR ''r'' then Some (CHR 0x0D)
      else if c = CHR ''t'' then Some (CHR 0x09)
      else None)"

text \<open>The characters of a string after its opening quote, up to the closing quote.\<close>

fun parse_chars :: "string \<Rightarrow> (string \<times> string) option" where
  "parse_chars [] = None"
| "parse_chars (c # cs) =
     (if c = dquote then Some ([], cs)
      else if c = backslash then
        (case cs of
           [] \<Rightarrow> None
         | e # r \<Rightarrow>
            (if e = CHR ''u'' then
               (case r of
                  a # b # c' # d # r' \<Rightarrow>
                    (case unicode_escape a b c' d of
                       None \<Rightarrow> None
                     | Some u \<Rightarrow>
                        (case parse_chars r' of
                           None \<Rightarrow> None
                         | Some (s, rest) \<Rightarrow> Some (u # s, rest)))
                | _ \<Rightarrow> None)
             else
               (case simple_escape e of
                  None \<Rightarrow> None
                | Some u \<Rightarrow>
                   (case parse_chars r of
                      None \<Rightarrow> None
                    | Some (s, rest) \<Rightarrow> Some (u # s, rest)))))
      else if (of_char c :: nat) < 32 then None
      else
        (case parse_chars cs of
           None \<Rightarrow> None
         | Some (s, rest) \<Rightarrow> Some (c # s, rest)))"

text \<open>
  A number: \<open>-? (0 | [1-9][0-9]*) (. [0-9]+)? ([eE] [+-]? [0-9]+)?\<close>. With integer
  digits \<open>i\<close>, fraction digits \<open>f\<close> and exponent \<open>x\<close> its value is \<open>if * 10 ^ (x - |f|)\<close>.
\<close>

definition parse_int_digits :: "string \<Rightarrow> (string \<times> string) option" where
  "parse_int_digits cs =
     (case cs of
        [] \<Rightarrow> None
      | c # r \<Rightarrow>
         if c = CHR ''0'' then Some ([c], r)
         else if is_digit c then Some (takeWhile is_digit cs, dropWhile is_digit cs)
         else None)"

definition parse_fraction :: "string \<Rightarrow> (string \<times> string) option" where
  "parse_fraction cs =
     (case cs of
        c # r \<Rightarrow>
         if c = CHR ''.'' then
           (if takeWhile is_digit r = [] then None
            else Some (takeWhile is_digit r, dropWhile is_digit r))
         else Some ([], cs)
      | [] \<Rightarrow> Some ([], cs))"

definition parse_signed_digits :: "string \<Rightarrow> (int \<times> string) option" where
  "parse_signed_digits cs =
     (let (neg, r) = (case cs of
                        c # r \<Rightarrow> if c = CHR ''-'' then (True, r)
                                 else if c = CHR ''+'' then (False, r) else (False, cs)
                      | [] \<Rightarrow> (False, cs))
      in if takeWhile is_digit r = [] then None
         else Some ((if neg then - int (nat_of_digits (takeWhile is_digit r))
                     else int (nat_of_digits (takeWhile is_digit r))),
                    dropWhile is_digit r))"

definition parse_exponent :: "string \<Rightarrow> (int \<times> string) option" where
  "parse_exponent cs =
     (case cs of
        c # r \<Rightarrow> if c = CHR ''e'' \<or> c = CHR ''E'' then parse_signed_digits r else Some (0, cs)
      | [] \<Rightarrow> Some (0, cs))"

definition parse_number :: "string \<Rightarrow> (number \<times> string) option" where
  "parse_number cs =
     (let (neg, r) = (case cs of
                        c # r \<Rightarrow> if c = CHR ''-'' then (True, r) else (False, cs)
                      | [] \<Rightarrow> (False, cs))
      in case parse_int_digits r of
           None \<Rightarrow> None
         | Some (ds, r1) \<Rightarrow>
            (case parse_fraction r1 of
               None \<Rightarrow> None
             | Some (fs, r2) \<Rightarrow>
                (case parse_exponent r2 of
                   None \<Rightarrow> None
                 | Some (x, r3) \<Rightarrow>
                    Some (Dec ((if neg then - 1 else 1) * int (nat_of_digits (ds @ fs)))
                            (x - int (length fs)), r3))))"

definition strip_prefix :: "string \<Rightarrow> string \<Rightarrow> string option" where
  "strip_prefix p cs = (if take (length p) cs = p then Some (drop (length p) cs) else None)"

text \<open>
  The value, array-element and object-member parsers. The first argument bounds the
  nesting and the number of items; \<open>JSON_parse\<close> starts it above the length of the text.
  A property that occurs again replaces the value of its first occurrence.
\<close>

fun parse_value :: "nat \<Rightarrow> string \<Rightarrow> (jsval \<times> string) option"
  and parse_elems :: "nat \<Rightarrow> string \<Rightarrow> (jsval list \<times> string) option"
  and parse_members :: "nat \<Rightarrow> string \<Rightarrow> ((string \<times> jsval) list \<times> string) option" where
  "parse_value 0 cs = None"
| "parse_value (Suc f) cs =
     (case skip_ws cs of
        [] \<Rightarrow> None
      | c # r \<Rightarrow>
         if c = CHR ''['' then
           (case skip_ws r of
              [] \<Rightarrow> None
            | c' # r' \<Rightarrow>
               if c' = CHR '']'' then Some (Arr [], r')
               else (case parse_elems f r of
                       None \<Rightarrow> None
                     | Some (xs, rest) \<Rightarrow> Some (Arr xs, rest)))
         else if c = CHR ''{'' then
           (case skip_ws r of
              [] \<Rightarrow> None
            | c' # r' \<Rightarrow>
               if c' = CHR ''}'' then Some (Obj [], r')
               else (case parse_members f r of
                       None \<Rightarrow> None
                     | Some (ps, rest) \<Rightarrow> Some (Obj (fold (\<lambda>(k, v) acc. obj_set acc k v) ps []), rest)))
         else if c = dquote then
           (case parse_chars r of
              None \<Rightarrow> None
            | Some (s, rest) \<Rightarrow> Some (Str s, rest))
         else if c = CHR ''t'' then
           (case strip_prefix ''true'' (c # r) of None \<Rightarrow> None | Some rest \<Rightarrow> Some (Bool True, rest))
         else if c = CHR ''f'' then
           (case strip_prefix ''false'' (c # r) of None \<Rightarrow> None | Some rest \<Rightarrow> Some (Bool False, rest))
         else if c = CHR ''n'' then
           (case strip_prefix ''null'' (c # r) of None \<Rightarrow> None | Some rest \<Rightarrow> Some (Null, rest))
         else
           (case parse_number (c # r) of
              None \<Rightarrow> None
            | Some (n, rest) \<Rightarrow> Some (Num n, rest)))"
| "parse_elems 0 cs = None"
| "parse_elems (Suc f) cs =
     (case parse_value f cs of
        None \<Rightarrow> None
      | Some (x, r) \<Rightarrow>
         (case skip_ws r of
            [] \<Rightarrow> None
          | c # r' \<Rightarrow>
             if c = CHR '']'' then Some ([x], r')
             else if c = CHR '','' then
               (case parse_elems f r' of
                  None \<Rightarrow> None
                | Some (xs, rest) \<Rightarrow> Some (x # xs, rest))
             else None))"
| "parse_members 0 cs = None"
| "parse_members (Suc f) cs =
     (case skip_ws cs of
        [] \<Rightarrow> None
      | q # r0 \<Rightarrow>
         if q \<noteq> dquote then None
         else
           (case parse_chars r0 of
              None \<Rightarrow> None
            | Some (k, r1) \<Rightarrow>
               (case skip_ws r1 of
                  [] \<Rightarrow> None
                | c1 # r2 \<Rightarrow>
                   if c1 \<noteq> CHR '':'' then None
                   else
                     (case parse_value f r2 of
                        None \<Rightarrow> None
                      | Some (v, r3) \<Rightarrow>
                         (case skip_ws r3 of
                            [] \<Rightarrow> None
                          | c # r' \<Rightarrow>
                             if c = CHR ''}'' then Some ([(k, v)], r')
                             else if c = CHR '','' then
                               (case parse_members f r' of
                                  None \<Rightarrow> None
                                | Some (ps, rest) \<Rightarrow> Some ((k, v) # ps, rest))
                             else None)))))"

text \<open>\<open>JSON.parse(text)\<close>; \<open>None\<close> is the \<open>SyntaxError\<close> it throws.\<close>

definition JSON_parse :: "string \<Rightarrow> jsval option" where
  "JSON_parse text =
     (case parse_value (Suc (2 * length text)) text of
        None \<Rightarrow> None
      | Some (v, rest) \<Rightarrow> if skip_ws rest = [] then Some v else None)"

subsection \<open>JSON values\<close>

text \<open>
  The values that \<open>JSON.parse\<close> returns: no \<open>undefined\<close> anywhere, and no object with a
  property twice.
\<close>

fun json_value :: "jsval \<Rightarrow> bool"
  and json_values :: "jsval list \<Rightarrow> bool"
  and json_fields :: "(string \<times> jsval) list \<Rightarrow> bool" where
  "json_value Undefined = False"
| "json_value Null = True"
| "json_value (Bool b) = True"
| "json_value (Num n) = True"
| "json_value (Str s) = True"
| "json_value (Arr xs) = json_values xs"
| "json_value (Obj ps) = (distinct (map fst ps) \<and> json_fields ps)"
| "json_values [] = True"
| "json_values (x # xs) = (json_value x \<and> json_values xs)"
| "json_fields [] = True"
| "json_fields ((k, v) # ps) = (json_value v \<and> json_fields ps)"

text \<open>The number of values and items of a value: a bound on the steps of parsing its text.\<close>

fun nodes :: "jsval \<Rightarrow> nat"
  and nodes_list :: "jsval list \<Rightarrow> nat"
  and nodes_fields :: "(string \<times> jsval) list \<Rightarrow> nat" where
  "nodes Undefined = 1"
| "nodes Null = 1"
| "nodes (Bool b) = 1"
| "nodes (Num n) = 1"
| "nodes (Str s) = 1"
| "nodes (Arr xs) = 1 + nodes_list xs"
| "nodes (Obj ps) = 1 + nodes_fields ps"
| "nodes_list [] = 0"
| "nodes_list (x # xs) = 1 + nodes x + nodes_list xs"
| "nodes_fields [] = 0"
| "nodes_fields ((k, v) # ps) = 1 + nodes v + nodes_fields ps"

definition no_digit :: "string \<Rightarrow> bool" where
  "no_digit rest = (case rest of [] \<Rightarrow> True | c # r \<Rightarrow> \<not> is_digit c)"

definition all_ws :: "string \<Rightarrow> bool" where
  "all_ws w = list_all is_ws w"

definition value_start :: "char \<Rightarrow> bool" where
  "value_start c = (\<not> is_ws c \<and> c \<noteq> CHR '']'' \<and> c \<noteq> CHR ''}'')"


section \<open>Vectors, meshes and editor objects\<close>

text \<open>
  \<open>THREE.Vector3\<close> and \<open>THREE.Euler\<close>: three components, each whatever value was stored
  (\<open>fromArray\<close> stores \<open>array[0]\<close>, \<open>array[1]\<close>, \<open>array[2]\<close> as they are).
\<close>

record Vector3 =
  vx :: jsval
  vy :: jsval
  vz :: jsval

definition Vector3_new :: "Vector3" where
  "Vector3_new = \<lparr>vx = num 0, vy = num 0, vz = num 0\<rparr>"

definition toArray :: "Vector3 \<Rightarrow> jsval" where
  "toArray v = Arr [vx v, vy v, vz v]"

definition fromArray :: "jsval \<Rightarrow> error + Vector3" where
  "fromArray a =
     (case get_index a 0 of
        Inl e \<Rightarrow> Inl e
      | Inr x \<Rightarrow>
         (case get_index a 1 of
            Inl e \<Rightarrow> Inl e
          | Inr y \<Rightarrow>
             (case get_index a 2 of
                Inl e \<Rightarrow> Inl e
              | Inr z \<Rightarrow> Inr \<lparr>vx = x, vy = y, vz = z\<rparr>)))"

datatype geometry =
    BoxGeometry number number number
  | CylinderGeometry number number number number

datatype material = MeshStandardMaterial string

record Mesh =
  geometry :: geometry
  material :: "material option"
  position :: Vector3
  rotation :: Vector3
  scale :: Vector3

record editor_object =
  obj_id :: jsval
  mesh :: Mesh
  data :: jsval

section \<open>MaterialsLibrary\<close>

text \<open>
  What \<open>obj[key]\<close> finds in an object literal: an own property, a property inherited
  from \<open>Object.prototype\<close>, or nothing (\<open>undefined\<close>).
\<close>

datatype 'a property = Own 'a | Inherited | Absent

definition lookup_property :: "(string \<times> 'a) list \<Rightarrow> string \<Rightarrow> 'a property" where
  "lookup_property ps k =
     (case map_of ps k of
        Some v \<Rightarrow> Own v
      | None \<Rightarrow> if k \<in> set Object_prototype_names then Inherited else Absent)"

definition createMaterials :: "(string \<times> material) list" where
  "createMaterials =
     map (\<lambda>n. (n, MeshStandardMaterial n))
       [''floor'', ''obstacle'', ''wall'', ''emissiveCyan'', ''emissiveOrange'',
        ''emissiveMagenta'', ''platform'', ''metalTrim'']"

text \<open>
  \<open>get (name) { const material = this.materials[name]; return material ? material.clone() : null; }\<close>
  An inherited property is truthy and has no \<open>clone\<close> method.
\<close>

definition MaterialsLibrary_get :: "jsval \<Rightarrow> error + material option" where
  "MaterialsLibrary_get name =
     (case lookup_property createMaterials (ToPropertyKey name) of
        Own m \<Rightarrow> Inr (Some m)
      | Inherited \<Rightarrow> Inl (TypeError ''material.clone is not a function'')
      | Absent \<Rightarrow> Inr None)"

text \<open>\<open>has (name) { return name in this.materials; }\<close>\<close>

definition MaterialsLibrary_has :: "jsval \<Rightarrow> bool" where
  "MaterialsLibrary_has name =
     (case lookup_property createMaterials (ToPropertyKey name) of Absent \<Rightarrow> False | _ \<Rightarrow> True)"

section \<open>ObjectFactory\<close>

record object_type =
  createGeometry :: geometry
  cfg_material :: string
  cfg_size :: "(string \<times> jsval) list"
  yOffset :: number
  defaultRotation :: "(number \<times> number \<times> number) option"

definition box :: object_type where
  "box = \<lparr>createGeometry = BoxGeometry (Dec 2 0) (Dec 2 0) (Dec 2 0), cfg_material = ''obstacle'',
     cfg_size = [(''width'', num 2), (''height'', num 2), (''depth'', num 2)],
     yOffset = Dec 1 0, defaultRotation = None\<rparr>"

definition platform :: object_type where
  "platform = \<lparr>createGeometry = BoxGeometry (Dec 5 0) (Dec 5 (-1)) (Dec 5 0), cfg_material = ''platform'',
     cfg_size = [(''width'', num 5), (''height'', Num (Dec 5 (-1))), (''depth'', num 5)],
     yOffset = Dec 25 (-2), defaultRotation = None\<rparr>"

definition wall :: object_type where
  "wall = \<lparr>createGeometry = BoxGeometry (Dec 3 (-1)) (Dec 3 0) (Dec 5 0), cfg_material = ''wall'',
     cfg_size = [(''width'', Num (Dec 3 (-1))), (''height'', num 3), (''depth'', num 5)],
     yOffset = Dec 15 (-1), defaultRotation = None\<rparr>"

definition cylinder :: object_type where
  "cylinder = \<lparr>createGeometry = CylinderGeometry (Dec 1 0) (Dec 1 0) (Dec 3 0) (Dec 16 0),
     cfg_material = ''obstacle'',
     cfg_size = [(''radius'', num 1), (''height'', num 3)],
     yOffset = Dec 15 (-1), defaultRotation = None\<rparr>"

text \<open>\<open>Math.PI / 12\<close> is the double \<open>0.2617993877991494\<close>.\<close>

definition ramp :: object_type where
  "ramp = \<lparr>createGeometry = BoxGeometry (Dec 4 0) (Dec 3 (-1)) (Dec 6 0), cfg_material = ''platform'',
     cfg_size = [(''width'', num 4), (''height'', Num (Dec 3 (-1))), (''depth'', num 6)],
     yOffset = Dec 9 (-1),
     defaultRotation = Some (Dec 2617993877991494 (-16), Dec 0 0, Dec 0 0)\<rparr>"

definition emissive_strip :: object_type where
  "emissive_strip = \<lparr>createGeometry = BoxGeometry (Dec 2 (-1)) (Dec 1 (-1)) (Dec 3 0),
     cfg_material = ''emissiveCyan'',
     cfg_size = [(''width'', Num (Dec 2 (-1))), (''height'', Num (Dec 1 (-1))), (''depth'', num 3)],
     yOffset = Dec 5 (-2), defaultRotation = None\<rparr>"

definition OBJECT_TYPES :: "(string \<times> object_type) list" where
  "OBJECT_TYPES =
     [(''box'', box), (''platform'', platform), (''wall'', wall), (''cylinder'', cylinder),
      (''ramp'', ramp), (''emissive_strip'', emissive_strip)]"

subsection \<open>generateId\<close>

text \<open>
  \<open>'obj_' + Date.now() + '_' + Math.random().toString(36).substr(2, 9)\<close>.
  \<open>Date.now()\<close> is a natural number of milliseconds. A draw of \<open>Math.random()\<close> is a
  double in \<open>[0, 1)\<close>; it is given by the digits of its base-36 fraction as
  \<open>toString(36)\<close> prints them, so that \<open>0.5\<close> is \<open>[18]\<close> (printed \<open>0.i\<close>) and \<open>0\<close> is
  \<open>[]\<close> (printed \<open>0\<close>).
\<close>

definition digit36 :: "nat \<Rightarrow> char" where
  "digit36 d = (if d < 10 then char_of (48 + d) else char_of (87 + d))"

definition toString36 :: "nat list \<Rightarrow> string" where
  "toString36 ds = (if ds = [] then ''0'' else ''0.'' @ map digit36 ds)"

text \<open>\<open>s.substr(start, length)\<close> for a start that is not negative.\<close>

definition substr :: "string \<Rightarrow> nat \<Rightarrow> nat \<Rightarrow> string" where
  "substr s start len = take len (drop start s)"

definition random_suffix :: "nat list \<Rightarrow> string" where
  "random_suffix rnd = substr (toString36 rnd) 2 9"

definition generateId :: "nat \<Rightarrow> nat list \<Rightarrow> string" where
  "generateId now rnd = ''obj_'' @ show_nat now @ ''_'' @ random_suffix rnd"

subsection \<open>create\<close>

definition xyz :: "jsval \<Rightarrow> jsval \<Rightarrow> jsval \<Rightarrow> jsval" where
  "xyz a b c = Obj [(''x'', a), (''y'', b), (''z'', c)]"

text \<open>
  \<open>const config = ObjectFactory.OBJECT_TYPES[type] || ObjectFactory.OBJECT_TYPES.box\<close>:
  only a missing property is falsy and replaced by the box.
\<close>

definition config_for :: "jsval \<Rightarrow> object_type property" where
  "config_for type =
     (case lookup_property OBJECT_TYPES (ToPropertyKey type) of
        Absent \<Rightarrow> lookup_property OBJECT_TYPES ''box''
      | p \<Rightarrow> p)"

definition create :: "jsval \<Rightarrow> Vector3 \<Rightarrow> jsval \<Rightarrow> nat \<Rightarrow> nat list \<Rightarrow> error + editor_object" where
  "create type pos ident now rnd =
     (case config_for type of
        Own config \<Rightarrow>
          (case MaterialsLibrary_get (Str (cfg_material config)) of
             Inl e \<Rightarrow> Inl e
           | Inr mat \<Rightarrow>
               Inr \<lparr>obj_id = (if truthy ident then ident else Str (generateId now rnd)),
                    mesh = \<lparr>geometry = createGeometry config, material = mat,
                      position = pos,
                      rotation = (case defaultRotation config of
                          Some (rx, ry, rz) \<Rightarrow> \<lparr>vx = Num rx, vy = Num ry, vz = Num rz\<rparr>
                        | None \<Rightarrow> Vector3_new),
                      scale = \<lparr>vx = num 1, vy = num 1, vz = num 1\<rparr>\<rparr>,
                    data = Obj
                      [(''type'', type),
                       (''position'', xyz (vx pos) (vy pos) (vz pos)),
                       (''rotation'', (case defaultRotation config of
                           Some (rx, ry, rz) \<Rightarrow> xyz (Num rx) (Num ry) (Num rz)
                         | None \<Rightarrow> xyz (num 0) (num 0) (num 0))),
                       (''scale'', xyz (num 1) (num 1) (num 1)),
                       (''materialType'', Str (cfg_material config)),
                       (''size'', Obj (cfg_size config)),
                       (''customData'', Obj [])]\<rparr>)
      | _ \<Rightarrow> Inl (TypeError ''config.createGeometry is not a function''))"

section \<open>The editor's commands on scene objects\<close>

text \<open>
  A command keeps a reference to its target, and the target is mutated in place. The
  editor's objects therefore live in a store, addressed by references. A target is an
  editor object (which has a \<open>mesh\<close>) or a bare \<open>THREE.Object3D\<close>: the commands read
  \<open>this.object.mesh || this.object\<close>.
\<close>

datatype heap_object = Wrapper editor_object | Object3D Mesh

datatype signal = objectChanged nat

record editor =
  store :: "nat \<Rightarrow> heap_object"
  signals :: "signal list"

fun mesh_of :: "heap_object \<Rightarrow> Mesh" where
  "mesh_of (Wrapper obj) = mesh obj"
| "mesh_of (Object3D m) = m"

fun with_mesh :: "(Mesh \<Rightarrow> Mesh) \<Rightarrow> heap_object \<Rightarrow> heap_object" where
  "with_mesh f (Wrapper obj) = Wrapper (obj\<lparr>mesh := f (mesh obj)\<rparr>)"
| "with_mesh f (Object3D m) = Object3D (f m)"

subsection \<open>SetPositionCommand\<close>

text \<open>The \<open>object\<close> field is \<open>None\<close> for \<open>null\<close>, which \<open>objectById\<close> leaves there
  when the recorded id resolves to no object.\<close>

record SetPositionCommand =
  object :: "nat option"
  newPosition :: Vector3
  oldPosition :: Vector3

text \<open>
  The constructor. \<open>const mesh = object.mesh || object\<close> throws on a missing object, before
  the test \<open>mesh ? mesh.position.clone() : new THREE.Vector3()\<close> is reached.
\<close>

definition SetPositionCommand_new ::
  "editor \<Rightarrow> nat option \<Rightarrow> Vector3 option \<Rightarrow> Vector3 option \<Rightarrow> error + SetPositionCommand" where
  "SetPositionCommand_new ed obj newPos oldPos =
     (case obj of
        None \<Rightarrow> Inl (TypeError ''Cannot read properties of undefined (reading mesh)'')
      | Some r \<Rightarrow>
          Inr \<lparr>object = Some r,
               newPosition = (case newPos of Some p \<Rightarrow> p | None \<Rightarrow> Vector3_new),
               oldPosition = (case oldPos of
                   Some p \<Rightarrow> p
                 | None \<Rightarrow> position (mesh_of (store ed r)))\<rparr>)"

text \<open>
  \<open>const mesh = this.object.mesh || this.object; mesh.position.copy(p);
  mesh.updateMatrixWorld(true); this.editor.signals.objectChanged.dispatch(mesh)\<close>,
  the body shared by \<open>execute\<close> (with \<open>newPosition\<close>) and \<open>undo\<close> (with \<open>oldPosition\<close>).
\<close>

definition set_mesh_position :: "nat option \<Rightarrow> Vector3 \<Rightarrow> editor \<Rightarrow> editor outcome" where
  "set_mesh_position obj p ed =
     (case obj of
        None \<Rightarrow> Threw (TypeError ''Cannot read properties of null (reading mesh)'') ed
      | Some r \<Rightarrow>
          Done (ed\<lparr>store := (store ed)(r := with_mesh (\<lambda>m. m\<lparr>position := p\<rparr>) (store ed r)),
                   signals := signals ed @ [objectChanged r]\<rparr>))"

definition SetPosition_execute :: "SetPositionCommand \<Rightarrow> editor \<Rightarrow> editor outcome" where
  "SetPosition_execute cmd ed = set_mesh_position (object cmd) (newPosition cmd) ed"

definition SetPosition_undo :: "SetPositionCommand \<Rightarrow> editor \<Rightarrow> editor outcome" where
  "SetPosition_undo cmd ed = set_mesh_position (object cmd) (oldPosition cmd) ed"

text \<open>\<open>update (cmd) { this.newPosition.copy(cmd.newPosition); }\<close>\<close>

definition SetPosition_update :: "SetPositionCommand \<Rightarrow> SetPositionCommand \<Rightarrow> SetPositionCommand" where
  "SetPosition_update this cmd = this\<lparr>newPosition := newPosition cmd\<rparr>"

subsection \<open>RemoveObjectCommand\<close>

text \<open>
  \<open>execute\<close> guards its body with \<open>if (this.object && this.parent)\<close>. The editor's
  \<open>removeObject\<close> and \<open>deselect\<close> are parameters.
\<close>

record RemoveObjectCommand =
  ro_object :: "nat option"
  ro_parent :: "nat option"
  ro_index :: int

definition RemoveObject_execute ::
  "(nat \<Rightarrow> editor \<Rightarrow> editor outcome) \<Rightarrow> (editor \<Rightarrow> editor outcome) \<Rightarrow> (nat \<Rightarrow> nat \<Rightarrow> editor \<Rightarrow> int)
   \<Rightarrow> RemoveObjectCommand \<Rightarrow> editor \<Rightarrow> RemoveObjectCommand \<times> editor outcome" where
  "RemoveObject_execute removeObject deselect indexOf cmd ed =
     (case (ro_object cmd, ro_parent cmd) of
        (Some r, Some p) \<Rightarrow>
          (cmd\<lparr>ro_index := indexOf p r ed\<rparr>,
           (case removeObject r ed of
              Threw e ed' \<Rightarrow> Threw e ed'
            | Done ed' \<Rightarrow> deselect ed'))
      | _ \<Rightarrow> (cmd, Done ed))"

section \<open>PropertyUpdater and GridManager\<close>

text \<open>
  Writing a property. An object gets or replaces the property; \<open>null\<close> and \<open>undefined\<close>
  throw, and so does a primitive in the strict mode of a module. A named property stored
  on an array is not part of the array's JSON and is not kept.
\<close>

fun set_member :: "jsval \<Rightarrow> string \<Rightarrow> jsval \<Rightarrow> error + jsval" where
  "set_member (Obj ps) k v = Inr (Obj (obj_set ps k v))"
| "set_member (Arr xs) k v = Inr (Arr xs)"
| "set_member t k v = Inl (TypeError (''Cannot set properties (setting '' @ k @ '')''))"

text \<open>\<open>data[field][axis] = v\<close>\<close>

definition set_data_component :: "jsval \<Rightarrow> string \<Rightarrow> string \<Rightarrow> jsval \<Rightarrow> error + jsval" where
  "set_data_component d field axis v =
     (case get_member d field of
        Inl e \<Rightarrow> Inl e
      | Inr sub \<Rightarrow>
         (case set_member sub axis v of
            Inl e \<Rightarrow> Inl e
          | Inr sub' \<Rightarrow> (case d of Obj ps \<Rightarrow> Inr (Obj (obj_set ps field sub')) | _ \<Rightarrow> Inr d)))"

text \<open>
  The arithmetic of the platform on values: \<open>parseFloat\<close>, the division \<open>a / b\<close>,
  \<open>THREE.MathUtils.degToRad\<close> and \<open>Math.round\<close>.
\<close>

record platform =
  parseFloat :: "jsval \<Rightarrow> jsval"
  divide :: "jsval \<Rightarrow> jsval \<Rightarrow> jsval"
  degToRad :: "jsval \<Rightarrow> jsval"
  Math_round :: "jsval \<Rightarrow> jsval"

definition set_axis :: "string \<Rightarrow> jsval \<Rightarrow> Vector3 \<Rightarrow> Vector3" where
  "set_axis axis v p =
     (if axis = ''x'' then p\<lparr>vx := v\<rparr> else if axis = ''y'' then p\<lparr>vy := v\<rparr> else p\<lparr>vz := v\<rparr>)"

text \<open>
  One transform case of \<open>update\<close>: \<open>mesh.F.A = v; data.F.A = mesh.F.A\<close>. The mesh is
  written first, so a throw of the second statement leaves the mesh changed.
\<close>

definition write_both ::
  "string \<Rightarrow> string \<Rightarrow> jsval \<Rightarrow> editor_object \<Rightarrow> editor_object outcome" where
  "write_both field axis v obj =
     (let m = mesh obj;
          m' = (if field = ''position'' then m\<lparr>position := set_axis axis v (position m)\<rparr>
                else if field = ''rotation'' then m\<lparr>rotation := set_axis axis v (rotation m)\<rparr>
                else m\<lparr>scale := set_axis axis v (scale m)\<rparr>);
          obj' = obj\<lparr>mesh := m'\<rparr>
      in case set_data_component (data obj) field axis v of
           Inl e \<Rightarrow> Threw e obj'
         | Inr d \<Rightarrow> Done (obj'\<lparr>data := d\<rparr>))"

text \<open>\<open>value / data.size.K\<close>; reading \<open>data.size.K\<close> can throw, before anything is written.\<close>

definition size_ratio :: "platform \<Rightarrow> jsval \<Rightarrow> string \<Rightarrow> editor_object \<Rightarrow> error + jsval" where
  "size_ratio js v k obj =
     (case get_member (data obj) ''size'' of
        Inl e \<Rightarrow> Inl e
      | Inr sz \<Rightarrow> (case get_member sz k of Inl e \<Rightarrow> Inl e | Inr w \<Rightarrow> Inr (divide js v w)))"

definition PropertyUpdater_update ::
  "platform \<Rightarrow> editor_object \<Rightarrow> string \<Rightarrow> jsval \<Rightarrow> editor_object outcome" where
  "PropertyUpdater_update js obj property v =
     (if property = ''materialType'' then
        (if MaterialsLibrary_has v then
           (case MaterialsLibrary_get v of
              Inl e \<Rightarrow> Threw e obj
            | Inr mat \<Rightarrow>
               (let obj' = obj\<lparr>mesh := (mesh obj)\<lparr>material := mat\<rparr>\<rparr>
                in case set_member (data obj) ''materialType'' v of
                     Inl e \<Rightarrow> Threw e obj'
                   | Inr d \<Rightarrow> Done (obj'\<lparr>data := d\<rparr>)))
         else Done obj)
      else if property = ''width'' then
        (case size_ratio js v ''width'' obj of
           Inl e \<Rightarrow> Threw e obj | Inr r \<Rightarrow> write_both ''scale'' ''x'' r obj)
      else if property = ''height'' then
        (case size_ratio js v ''height'' obj of
           Inl e \<Rightarrow> Threw e obj | Inr r \<Rightarrow> write_both ''scale'' ''y'' r obj)
      else if property = ''depth'' then
        (case size_ratio js v ''depth'' obj of
           Inl e \<Rightarrow> Threw e obj | Inr r \<Rightarrow> write_both ''scale'' ''z'' r obj)
      else if property = ''x'' then write_both ''position'' ''x'' (parseFloat js v) obj
      else if property = ''y'' then write_both ''position'' ''y'' (parseFloat js v) obj
      else if property = ''z'' then write_both ''position'' ''z'' (parseFloat js v) obj
      else if property = ''rot-x'' then write_both ''rotation'' ''x'' (degToRad js (parseFloat js v)) obj
      else if property = ''rot-y'' then write_both ''rotation'' ''y'' (degToRad js (parseFloat js v)) obj
      else if property = ''rot-z'' then write_both ''rotation'' ''z'' (degToRad js (parseFloat js v)) obj
      else Done obj)"

text \<open>
  \<open>snapObject\<close>: \<open>snapPosition\<close> rounds \<open>x\<close> and \<open>z\<close> of the mesh position, then
  \<open>data.position.x\<close> and \<open>data.position.z\<close> are set from the mesh. \<open>None\<close> is a falsy
  argument, for which the method returns at once.
\<close>

definition snapPosition :: "platform \<Rightarrow> Vector3 \<Rightarrow> Vector3" where
  "snapPosition js p = p\<lparr>vx := Math_round js (vx p), vz := Math_round js (vz p)\<rparr>"

definition snapObject :: "platform \<Rightarrow> editor_object option \<Rightarrow> editor_object option outcome" where
  "snapObject js editorObject =
     (case editorObject of
        None \<Rightarrow> Done None
      | Some obj \<Rightarrow>
         (let p = snapPosition js (position (mesh obj));
              obj' = obj\<lparr>mesh := (mesh obj)\<lparr>position := p\<rparr>\<rparr>
          in case set_data_component (data obj') ''position'' ''x'' (vx p) of
               Inl e \<Rightarrow> Threw e (Some obj')
             | Inr d \<Rightarrow>
                (case set_data_component d ''position'' ''z'' (vz p) of
                   Inl e \<Rightarrow> Threw e (Some (obj'\<lparr>data := d\<rparr>))
                 | Inr d' \<Rightarrow> Done (Some (obj'\<lparr>data := d'\<rparr>)))))"

subsection \<open>No drift between the data and the mesh\<close>

definition data_vector :: "jsval \<Rightarrow> string \<Rightarrow> Vector3 option" where
  "data_vector d field =
     (case get_member d field of
        Inr (Obj ps) \<Rightarrow>
          Some \<lparr>vx = (case map_of ps ''x'' of Some v \<Rightarrow> v | None \<Rightarrow> Undefined),
                vy = (case map_of ps ''y'' of Some v \<Rightarrow> v | None \<Rightarrow> Undefined),
                vz = (case map_of ps ''z'' of Some v \<Rightarrow> v | None \<Rightarrow> Undefined)\<rparr>
      | _ \<Rightarrow> None)"

definition in_sync :: "editor_object \<Rightarrow> bool" where
  "in_sync obj =
     (data_vector (data obj) ''position'' = Some (position (mesh obj)) \<and>
      data_vector (data obj) ''rotation'' = Some (rotation (mesh obj)) \<and>
      data_vector (data obj) ''scale'' = Some (scale (mesh obj)))"

section \<open>The history stack\<close>

text \<open>
  Modelled from the spec: the history stack of section 4.3, which \<open>SceneSerializer\<close> takes
  from the \<open>undo-manager\<close> package (not under src/). It is a list of commands and the
  index of the last one executed, \<open>-1\<close> when none is; \<open>add\<close> drops the commands above the
  index, appends, and evicts the oldest commands over the limit; \<open>add\<close> does nothing while
  a command is being executed.

  A command of the serializer is the pair of closures that \<open>saveState\<close> builds; the two
  differ only in the snapshots they capture.
\<close>

record history_entry =
  prevState :: jsval
  currState :: jsval

record UndoManager =
  commands :: "history_entry list"
  index :: int
  limit :: nat
  isExecuting :: bool

definition UndoManager_new :: UndoManager where
  "UndoManager_new = \<lparr>commands = [], index = - 1, limit = 0, isExecuting = False\<rparr>"

definition setLimit :: "nat \<Rightarrow> UndoManager \<Rightarrow> UndoManager" where
  "setLimit l um = um\<lparr>limit := l\<rparr>"

definition add :: "history_entry \<Rightarrow> UndoManager \<Rightarrow> UndoManager" where
  "add command um =
     (if isExecuting um then um
      else
        (let cs = take (nat (index um + 1)) (commands um) @ [command];
             cs' = (if limit um \<noteq> 0 \<and> limit um < length cs
                    then drop (length cs - limit um) cs else cs)
         in um\<lparr>commands := cs', index := int (length cs') - 1\<rparr>))"

definition hasUndo :: "UndoManager \<Rightarrow> bool" where
  "hasUndo um = (index um \<noteq> - 1)"

definition hasRedo :: "UndoManager \<Rightarrow> bool" where
  "hasRedo um = (index um < int (length (commands um)) - 1)"

text \<open>\<open>commands[i]\<close>, which is \<open>undefined\<close> outside the array.\<close>

definition command_at :: "UndoManager \<Rightarrow> int \<Rightarrow> history_entry option" where
  "command_at um i =
     (if 0 \<le> i \<and> i < int (length (commands um)) then Some (commands um ! nat i) else None)"

text \<open>The index points at a command of the list, or is \<open>-1\<close>.\<close>

definition history_ok :: "UndoManager \<Rightarrow> bool" where
  "history_ok um = (- 1 \<le> index um \<and> index um < int (length (commands um)))"

section \<open>SceneSerializer\<close>

text \<open>
  The serializer with the world its \<open>loadSceneCallback\<close> acts on. \<open>lastState\<close> is \<open>None\<close>
  for \<open>null\<close>. \<open>events\<close> lists the details \<open>(canUndo, canRedo)\<close> of the \<open>stateChanged\<close>
  events dispatched so far.
\<close>

record 'w SceneSerializer =
  undoManager :: UndoManager
  lastState :: "jsval option"
  loadSceneCallback :: "(jsval \<Rightarrow> 'w \<Rightarrow> 'w outcome) option"
  events :: "(bool \<times> bool) list"

definition SceneSerializer_new :: "nat \<Rightarrow> 'w SceneSerializer" where
  "SceneSerializer_new maxHistorySize =
     \<lparr>undoManager = setLimit maxHistorySize UndoManager_new, lastState = None,
      loadSceneCallback = None, events = []\<rparr>"

definition setLoadSceneCallback ::
  "(jsval \<Rightarrow> 'w \<Rightarrow> 'w outcome) \<Rightarrow> 'w SceneSerializer \<Rightarrow> 'w SceneSerializer" where
  "setLoadSceneCallback callback s = s\<lparr>loadSceneCallback := Some callback\<rparr>"

definition canUndo :: "'w SceneSerializer \<Rightarrow> bool" where
  "canUndo s = hasUndo (undoManager s)"

definition canRedo :: "'w SceneSerializer \<Rightarrow> bool" where
  "canRedo s = hasRedo (undoManager s)"

definition dispatchStateChanged :: "'w SceneSerializer \<Rightarrow> 'w SceneSerializer" where
  "dispatchStateChanged s = s\<lparr>events := events s @ [(canUndo s, canRedo s)]\<rparr>"

text \<open>
  \<open>JSON.parse(JSON.stringify(obj))\<close>. \<open>JSON.stringify(undefined)\<close> is \<open>undefined\<close>, which
  \<open>JSON.parse\<close> rejects.
\<close>

definition deepClone :: "jsval \<Rightarrow> error + jsval" where
  "deepClone obj =
     (case JSON_stringify 0 obj of
        None \<Rightarrow> Inl (SyntaxError ''undefined is not valid JSON'')
      | Some text \<Rightarrow>
         (case JSON_parse text of
            None \<Rightarrow> Inl (SyntaxError ''Unexpected token'')
          | Some v \<Rightarrow> Inr v))"

text \<open>
  \<open>serializeObjects\<close>. The decomposition of \<open>obj.mesh.matrixWorld\<close> into a position, Euler
  angles and a scale is the parameter \<open>decompose\<close>. \<open>objects.map\<close> stops at the first
  object whose callback throws.
\<close>

definition serializeObject ::
  "(Mesh \<Rightarrow> Vector3 \<times> Vector3 \<times> Vector3) \<Rightarrow> editor_object \<Rightarrow> error + jsval" where
  "serializeObject decompose obj =
     (case decompose (mesh obj) of (p, eulerRotation, sc) \<Rightarrow>
        (case deepClone (data obj) of
           Inl e \<Rightarrow> Inl e
         | Inr d \<Rightarrow>
            Inr (Obj [(''id'', obj_id obj), (''data'', d), (''position'', toArray p),
                      (''rotation'', Arr [vx eulerRotation, vy eulerRotation, vz eulerRotation]),
                      (''scale'', toArray sc)])))"

fun map_objects :: "('a \<Rightarrow> error + 'b) \<Rightarrow> 'a list \<Rightarrow> error + 'b list" where
  "map_objects f [] = Inr []"
| "map_objects f (x # xs) =
     (case f x of
        Inl e \<Rightarrow> Inl e
      | Inr y \<Rightarrow> (case map_objects f xs of Inl e \<Rightarrow> Inl e | Inr ys \<Rightarrow> Inr (y # ys)))"

definition serializeObjects ::
  "(Mesh \<Rightarrow> Vector3 \<times> Vector3 \<times> Vector3) \<Rightarrow> editor_object list \<Rightarrow> error + jsval" where
  "serializeObjects decompose objs =
     (case map_objects (serializeObject decompose) objs of
        Inl e \<Rightarrow> Inl e
      | Inr ss \<Rightarrow> Inr (Obj [(''objects'', Arr ss)]))"

text \<open>
  \<open>saveState\<close>: the new snapshot becomes \<open>lastState\<close>; an undo/redo pair is added only
  when \<open>lastState\<close> was not \<open>null\<close>.
\<close>

definition saveState ::
  "(Mesh \<Rightarrow> Vector3 \<times> Vector3 \<times> Vector3) \<Rightarrow> editor_object list \<Rightarrow> 'w SceneSerializer
   \<Rightarrow> 'w SceneSerializer outcome" where
  "saveState decompose objs s =
     (case serializeObjects decompose objs of
        Inl e \<Rightarrow> Threw e s
      | Inr st \<Rightarrow>
         (case deepClone st of
            Inl e \<Rightarrow> Threw e s
          | Inr newState \<Rightarrow>
             (let s1 = (case lastState s of
                          None \<Rightarrow> s
                        | Some prev \<Rightarrow>
                            s\<lparr>undoManager := add \<lparr>prevState = prev, currState = newState\<rparr> (undoManager s)\<rparr>)
              in Done (dispatchStateChanged (s1\<lparr>lastState := Some newState\<rparr>)))))"

text \<open>
  \<open>if (this.loadSceneCallback) this.loadSceneCallback(st)\<close>, and the body of an undo or
  redo closure for the snapshot \<open>st\<close>, run by the history stack:
  the stack sets \<open>isExecuting\<close>, the closure calls the callback (if there is one), stores
  \<open>st\<close> in \<open>lastState\<close> and dispatches the event, and the stack then clears \<open>isExecuting\<close>
  and moves its index by \<open>step\<close>. A throw of the callback leaves the stack as it stood.
\<close>

definition call_loadScene :: "'w SceneSerializer \<Rightarrow> jsval \<Rightarrow> 'w \<Rightarrow> 'w outcome" where
  "call_loadScene s st w = (case loadSceneCallback s of None \<Rightarrow> Done w | Some callback \<Rightarrow> callback st w)"

definition run_closure ::
  "jsval \<Rightarrow> int \<Rightarrow> 'w SceneSerializer \<Rightarrow> 'w \<Rightarrow> ('w SceneSerializer \<times> 'w) outcome" where
  "run_closure st step s w =
     (let s1 = s\<lparr>undoManager := (undoManager s)\<lparr>isExecuting := True\<rparr>\<rparr>
      in case call_loadScene s st w of
           Threw e w' \<Rightarrow> Threw e (s1, w')
         | Done w' \<Rightarrow>
            (let s2 = dispatchStateChanged (s1\<lparr>lastState := Some st\<rparr>)
             in Done (s2\<lparr>undoManager :=
                        (undoManager s2)\<lparr>isExecuting := False,
                                          index := index (undoManager s2) + step\<rparr>\<rparr>, w')))"

text \<open>
  \<open>undo () { if (!this.canUndo()) return null; this.undoManager.undo(); return this.lastState; }\<close>
  and \<open>redo\<close>. The result carries the value returned.
\<close>

fun returning_lastState ::
  "('w SceneSerializer \<times> 'w) outcome \<Rightarrow> (jsval option \<times> 'w SceneSerializer \<times> 'w) outcome" where
  "returning_lastState (Done (s, w)) = Done (lastState s, s, w)"
| "returning_lastState (Threw e (s, w)) = Threw e (None, s, w)"

definition SceneSerializer_undo ::
  "'w SceneSerializer \<Rightarrow> 'w \<Rightarrow> (jsval option \<times> 'w SceneSerializer \<times> 'w) outcome" where
  "SceneSerializer_undo s w =
     (if \<not> canUndo s then Done (None, s, w)
      else
        (case command_at (undoManager s) (index (undoManager s)) of
           None \<Rightarrow> Done (lastState s, s, w)
         | Some command \<Rightarrow> returning_lastState (run_closure (prevState command) (- 1) s w)))"

definition SceneSerializer_redo ::
  "'w SceneSerializer \<Rightarrow> 'w \<Rightarrow> (jsval option \<times> 'w SceneSerializer \<times> 'w) outcome" where
  "SceneSerializer_redo s w =
     (if \<not> canRedo s then Done (None, s, w)
      else
        (case command_at (undoManager s) (index (undoManager s) + 1) of
           None \<Rightarrow> Done (lastState s, s, w)
         | Some command \<Rightarrow> returning_lastState (run_closure (currState command) 1 s w)))"



section \<open>LevelEditor: restoring and importing a scene\<close>

text \<open>
  The body of the callback of \<open>state.objects.forEach\<close> in \<open>loadScene\<close>, for one entry \<open>s\<close>
  of the snapshot. The arguments of \<open>create\<close> are evaluated first, in their order; \<open>env\<close>
  gives the time and the random draw of the call.
\<close>

definition restore_object :: "nat \<times> nat list \<Rightarrow> jsval \<Rightarrow> error + editor_object" where
  "restore_object env s =
     (case get_member s ''data'' of Inl e \<Rightarrow> Inl e | Inr d \<Rightarrow>
     (case get_member d ''type'' of Inl e \<Rightarrow> Inl e | Inr type \<Rightarrow>
     (case get_member s ''position'' of Inl e \<Rightarrow> Inl e | Inr pa \<Rightarrow>
     (case fromArray pa of Inl e \<Rightarrow> Inl e | Inr pos \<Rightarrow>
     (case get_member s ''id'' of Inl e \<Rightarrow> Inl e | Inr ident \<Rightarrow>
     (case create type pos ident (fst env) (snd env) of Inl e \<Rightarrow> Inl e | Inr obj \<Rightarrow>
     (case get_member s ''rotation'' of Inl e \<Rightarrow> Inl e | Inr ra \<Rightarrow>
     (case fromArray ra of Inl e \<Rightarrow> Inl e | Inr rot \<Rightarrow>
     (case get_member s ''scale'' of Inl e \<Rightarrow> Inl e | Inr sa \<Rightarrow>
     (case fromArray sa of Inl e \<Rightarrow> Inl e | Inr sc \<Rightarrow>
     (case deepClone d of Inl e \<Rightarrow> Inl e | Inr d' \<Rightarrow>
     (case get_member d ''materialType'' of Inl e \<Rightarrow> Inl e | Inr mt \<Rightarrow>
        (if MaterialsLibrary_has mt then
           (case MaterialsLibrary_get mt of
              Inl e \<Rightarrow> Inl e
            | Inr mat \<Rightarrow>
               Inr (obj\<lparr>mesh := (mesh obj)\<lparr>rotation := rot, scale := sc, material := mat\<rparr>,
                        data := d'\<rparr>))
         else Inr (obj\<lparr>mesh := (mesh obj)\<lparr>rotation := rot, scale := sc\<rparr>, data := d'\<rparr>))))))))))))))"

text \<open>
  The loop of \<open>forEach\<close>: every restored object is pushed to \<open>this.objects\<close> at once, so
  a throw leaves there the objects restored before it.
\<close>

fun load_objects ::
  "(nat \<Rightarrow> nat \<times> nat list) \<Rightarrow> nat \<Rightarrow> jsval list \<Rightarrow> editor_object list \<Rightarrow> editor_object list outcome" where
  "load_objects env i [] objs = Done objs"
| "load_objects env i (s # ss) objs =
     (case restore_object (env i) s of
        Inl e \<Rightarrow> Threw e objs
      | Inr obj \<Rightarrow> load_objects env (Suc i) ss (objs @ [obj]))"

text \<open>
  \<open>loadScene\<close>: the live objects are removed and \<open>this.objects = []\<close> is set before
  \<open>state.objects\<close> is read. Only an array has \<open>forEach\<close>.
\<close>

definition loadScene ::
  "(nat \<Rightarrow> nat \<times> nat list) \<Rightarrow> jsval \<Rightarrow> editor_object list \<Rightarrow> editor_object list outcome" where
  "loadScene env state objs =
     (case get_member state ''objects'' of
        Inl e \<Rightarrow> Threw e []
      | Inr (Arr ss) \<Rightarrow> load_objects env 0 ss []
      | Inr Undefined \<Rightarrow> Threw (TypeError ''Cannot read properties of undefined (reading forEach)'') []
      | Inr Null \<Rightarrow> Threw (TypeError ''Cannot read properties of null (reading forEach)'') []
      | Inr _ \<Rightarrow> Threw (TypeError ''state.objects.forEach is not a function'') [])"

record LevelEditor =
  objects :: "editor_object list"
  serializer :: "editor_object list SceneSerializer"


text \<open>\<open>undo () { this.serializer.undo(); }\<close> and \<open>redo\<close> of the editor.\<close>

definition LevelEditor_undo :: "LevelEditor \<Rightarrow> LevelEditor outcome" where
  "LevelEditor_undo ed =
     (case SceneSerializer_undo (serializer ed) (objects ed) of
        Done (r, s, objs) \<Rightarrow> Done (ed\<lparr>objects := objs, serializer := s\<rparr>)
      | Threw e (r, s, objs) \<Rightarrow> Threw e (ed\<lparr>objects := objs, serializer := s\<rparr>))"

definition LevelEditor_redo :: "LevelEditor \<Rightarrow> LevelEditor outcome" where
  "LevelEditor_redo ed =
     (case SceneSerializer_redo (serializer ed) (objects ed) of
        Done (r, s, objs) \<Rightarrow> Done (ed\<lparr>objects := objs, serializer := s\<rparr>)
      | Threw e (r, s, objs) \<Rightarrow> Threw e (ed\<lparr>objects := objs, serializer := s\<rparr>))"

subsection \<open>Scene snapshots\<close>

text \<open>
  An entry of a scene snapshot: the id, the semantic data and the world position,
  rotation and scale of an object, and the state that \<open>serializeObjects\<close> makes of a list
  of them.
\<close>

record snapshot_object =
  s_id :: jsval
  s_data :: jsval
  s_position :: "number \<times> number \<times> number"
  s_rotation :: "number \<times> number \<times> number"
  s_scale :: "number \<times> number \<times> number"

definition triple_array :: "number \<times> number \<times> number \<Rightarrow> jsval" where
  "triple_array t = (case t of (a, b, c) \<Rightarrow> Arr [Num a, Num b, Num c])"

definition triple_vector :: "number \<times> number \<times> number \<Rightarrow> Vector3" where
  "triple_vector t = (case t of (a, b, c) \<Rightarrow> \<lparr>vx = Num a, vy = Num b, vz = Num c\<rparr>)"

definition snapshot_entry :: "snapshot_object \<Rightarrow> jsval" where
  "snapshot_entry s =
     Obj [(''id'', s_id s), (''data'', s_data s), (''position'', triple_array (s_position s)),
          (''rotation'', triple_array (s_rotation s)), (''scale'', triple_array (s_scale s))]"

definition snapshot_state :: "snapshot_object list \<Rightarrow> jsval" where
  "snapshot_state S = Obj [(''objects'', Arr (map snapshot_entry S))]"

text \<open>
  The data of a live object: a JSON object whose type has a configuration (its own or
  the fallback) and whose material, if the library has it at all, is one of its own.
\<close>

definition entity_data :: "jsval \<Rightarrow> bool" where
  "entity_data d =
     (json_value d \<and>
      (case d of
         Obj ps \<Rightarrow>
           ToPropertyKey (case map_of ps ''type'' of Some t \<Rightarrow> t | None \<Rightarrow> Undefined)
             \<notin> set Object_prototype_names \<and>
           ToPropertyKey (case map_of ps ''materialType'' of Some t \<Rightarrow> t | None \<Rightarrow> Undefined)
             \<notin> set Object_prototype_names
       | _ \<Rightarrow> False))"

definition scene_snapshot :: "snapshot_object list \<Rightarrow> bool" where
  "scene_snapshot S = list_all (\<lambda>s. json_value (s_id s) \<and> entity_data (s_data s)) S"

text \<open>The floating-point tolerance of the comparison of two transforms.\<close>

definition within_tolerance :: "jsval \<Rightarrow> number \<Rightarrow> bool" where
  "within_tolerance v n =
     (case v of Num m \<Rightarrow> \<bar>number_value m - number_value n\<bar> \<le> 1 / 10 ^ 6 | _ \<Rightarrow> False)"

definition transform_close :: "Vector3 \<Rightarrow> number \<times> number \<times> number \<Rightarrow> bool" where
  "transform_close v t =
     (case t of (a, b, c) \<Rightarrow>
        within_tolerance (vx v) a \<and> within_tolerance (vy v) b \<and> within_tolerance (vz v) c)"

text \<open>
  An object restored from an entry agrees with it: the same semantic data, and a mesh
  directly under the scene whose position, rotation and scale, which are then its world
  transform, are the entry's.
\<close>

definition agrees :: "snapshot_object \<Rightarrow> editor_object \<Rightarrow> bool" where
  "agrees s obj =
     (data obj = s_data s \<and>
      transform_close (position (mesh obj)) (s_position s) \<and>
      transform_close (rotation (mesh obj)) (s_rotation s) \<and>
      transform_close (scale (mesh obj)) (s_scale s))"

text \<open>
  The decomposition of the world matrix of a mesh that lies directly under the scene, in
  exact arithmetic: its own position, rotation and scale. \<open>loadScene\<close> adds every mesh it
  restores to the scene itself.
\<close>

definition local_transform :: "Mesh \<Rightarrow> Vector3 \<times> Vector3 \<times> Vector3" where
  "local_transform m = (position m, rotation m, scale m)"


section \<open>An example scene\<close>

text \<open>The box that \<open>create('box', new THREE.Vector3(), 'a')\<close> returns.\<close>

definition example_box :: editor_object where
  "example_box =
     \<lparr>obj_id = Str ''a'',
      mesh = \<lparr>geometry = BoxGeometry (Dec 2 0) (Dec 2 0) (Dec 2 0),
        material = Some (MeshStandardMaterial ''obstacle''),
        position = \<lparr>vx = num 0, vy = num 0, vz = num 0\<rparr>,
        rotation = \<lparr>vx = num 0, vy = num 0, vz = num 0\<rparr>,
        scale = \<lparr>vx = num 1, vy = num 1, vz = num 1\<rparr>\<rparr>,
      data = Obj
        [(''type'', Str ''box''),
         (''position'', Obj [(''x'', num 0), (''y'', num 0), (''z'', num 0)]),
         (''rotation'', Obj [(''x'', num 0), (''y'', num 0), (''z'', num 0)]),
         (''scale'', Obj [(''x'', num 1), (''y'', num 1), (''z'', num 1)]),
         (''materialType'', Str ''obstacle''),
         (''size'', Obj [(''width'', num 2), (''height'', num 2), (''depth'', num 2)]),
         (''customData'', Obj [])]\<rparr>"

text \<open>An editor whose store holds the box at every reference, and a move of it to \<open>(5, 0, 5)\<close>.\<close>

definition example_editor :: editor where
  "example_editor = \<lparr>store = (\<lambda>r. Wrapper example_box), signals = []\<rparr>"

definition example_target :: Vector3 where
  "example_target = \<lparr>vx = num 5, vy = num 0, vz = num 5\<rparr>"

definition example_move :: SetPositionCommand where
  "example_move = \<lparr>object = Some 0, newPosition = example_target, oldPosition = Vector3_new\<rparr>"

definition moved_box :: editor_object where
  "moved_box = example_box\<lparr>mesh := (mesh example_box)\<lparr>position := example_target\<rparr>\<rparr>"

text \<open>A platform whose numeric functions return their first argument.\<close>

definition example_platform :: platform where
  "example_platform =
     \<lparr>parseFloat = (\<lambda>v. v), divide = (\<lambda>a b. a), degToRad = (\<lambda>v. v), Math_round = (\<lambda>v. v)\<rparr>"

text \<open>An environment in which every call happens at time \<open>0\<close> with the draw \<open>0.5\<close>.\<close>

definition example_env :: "nat \<Rightarrow> nat \<times> nat list" where
  "example_env i = (0, [18])"

text \<open>
  The snapshot of the scene of the example box, and a serializer with one recorded step,
  from the empty scene to that scene, before and after the step is undone.
\<close>

definition empty_state :: jsval where
  "empty_state = Obj [(''objects'', Arr [])]"

definition example_snapshot :: "snapshot_object list" where
  "example_snapshot =
     [\<lparr>s_id = Str ''a'', s_data = data example_box,
       s_position = (Dec 0 0, Dec 0 0, Dec 0 0), s_rotation = (Dec 0 0, Dec 0 0, Dec 0 0),
       s_scale = (Dec 1 0, Dec 1 0, Dec 1 0)\<rparr>]"

definition example_serializer :: "editor_object list SceneSerializer" where
  "example_serializer =
     \<lparr>undoManager = \<lparr>commands = [\<lparr>prevState = empty_state, currState = snapshot_state example_snapshot\<rparr>],
          index = 0, limit = 50, isExecuting = False\<rparr>,
      lastState = Some (snapshot_state example_snapshot),
      loadSceneCallback = Some (loadScene example_env),
      events = []\<rparr>"





definition example_undone :: "editor_object list SceneSerializer" where
  "example_undone =
     example_serializer\<lparr>undoManager := (undoManager example_serializer)\<lparr>index := - 1\<rparr>,
       lastState := Some empty_state\<rparr>"



section \<open>The composite command calls its members in order\<close>

lemma logged_members_nth:
  "i < length cs \<Longrightarrow> logged_members cs ! i = logged i (cs ! i)"
  by (simp add: logged_members_def nth_enumerate_eq)

lemma undo_trace:
  "j \<le> length cs \<Longrightarrow>
   \<exists>m\<le>j. snd (state_of (undo_loop j (logged_members cs) (s, tr)))
      = tr @ map UndoCall (rev [j - m..<j]) \<and>
     (completed (undo_loop j (logged_members cs) (s, tr)) \<longrightarrow> m = j)"
proof (induction j arbitrary: s tr)
  case 0
  then show ?case by simp
next
  case (Suc j)
  then have j: "j < length cs" by simp
  show ?case
  proof (cases "undo (cs ! j) s")
    case (Done s')
    from Suc.IH[of s' "tr @ [UndoCall j]"] j obtain m where
      m: "m \<le> j"
      "snd (state_of (undo_loop j (logged_members cs) (s', tr @ [UndoCall j])))
        = (tr @ [UndoCall j]) @ map UndoCall (rev [j - m..<j])"
      "completed (undo_loop j (logged_members cs) (s', tr @ [UndoCall j])) \<longrightarrow> m = j"
      by auto
    have "[j - m..<Suc j] = [j - m..<j] @ [j]" using m(1) by simp
    then show ?thesis
      apply -
      apply (rule exI[of _ "Suc m"])
      using m Done j by (simp add: logged_def logged_members_nth)
  next
    case (Threw e s')
    show ?thesis
      apply (rule exI[of _ "Suc 0"])
      using Threw j by (simp add: logged_def logged_members_nth)
  qed
qed

lemma exec_trace:
  "\<exists>m\<le>length cs. snd (state_of (MultiCmds_execute (map (\<lambda>(i, c). logged i c) (enumerate k cs)) (s, tr)))
      = tr @ map ExecuteCall [k..<k+m] \<and>
     (completed (MultiCmds_execute (map (\<lambda>(i, c). logged i c) (enumerate k cs)) (s, tr)) \<longrightarrow> m = length cs)"
proof (induction cs arbitrary: k s tr)
  case Nil
  then show ?case by simp
next
  case (Cons c cs)
  show ?case
  proof (cases "execute c s")
    case (Done s')
    from Cons.IH[of "Suc k" s' "tr @ [ExecuteCall k]"] obtain m where
      m: "m \<le> length cs" 
      "snd (state_of (MultiCmds_execute (map (\<lambda>(i, c). logged i c) (enumerate (Suc k) cs)) (s', tr @ [ExecuteCall k])))
        = (tr @ [ExecuteCall k]) @ map ExecuteCall [Suc k..<Suc k+m]"
      "completed (MultiCmds_execute (map (\<lambda>(i, c). logged i c) (enumerate (Suc k) cs)) (s', tr @ [ExecuteCall k])) \<longrightarrow> m = length cs"
      by blast
    show ?thesis
      apply (rule exI[of _ "Suc m"])
      using m Done by (simp add: logged_def upt_conv_Cons)
  next
    case (Threw e s')
    show ?thesis
      apply (rule exI[of _ "Suc 0"])
      using Threw by (simp add: logged_def)
  qed
qed

lemma execute_completes:
  "\<forall>c\<in>set cs. never_throws (execute c) \<Longrightarrow>
   completed (MultiCmds_execute (map (\<lambda>(i, c). logged i c) (enumerate k cs)) (s, tr))"
proof (induction cs arbitrary: k s tr)
  case Nil
  then show ?case by simp
next
  case (Cons c cs)
  then have "completed (execute c s)" by (simp add: never_throws_def)
  then obtain s' where "execute c s = Done s'" by (cases "execute c s") auto
  with Cons show ?case by (simp add: logged_def)
qed

lemma undo_completes:
  "\<forall>c\<in>set cs. never_throws (undo c) \<Longrightarrow> j \<le> length cs \<Longrightarrow>
   completed (undo_loop j (logged_members cs) (s, tr))"
proof (induction j arbitrary: s tr)
  case 0
  then show ?case by simp
next
  case (Suc j)
  then have j: "j < length cs" by simp
  with Suc.prems have "completed (undo (cs ! j) s)" by (simp add: never_throws_def)
  then obtain s' where "undo (cs ! j) s = Done s'" by (cases "undo (cs ! j) s") auto
  with Suc j show ?case by (simp add: logged_def logged_members_nth)
qed

lemma length_logged_members [simp]: "length (logged_members cs) = length cs"
  by (simp add: logged_members_def)

lemma execute_calls_prefix:
  "prefix (execute_calls cmds s) (map ExecuteCall [0..<length cmds])"
proof -
  from exec_trace[of cmds 0 s "[]"] obtain m where
    m: "m \<le> length cmds" "execute_calls cmds s = map ExecuteCall [0..<m]"
    by (auto simp: execute_calls_def logged_members_def)
  have "[0..<length cmds] = [0..<m] @ [m..<length cmds]"
    using m(1) by (metis le_add_diff_inverse upt_add_eq_append zero_le)
  then show ?thesis using m(2) by (metis map_append prefixI)
qed

lemma undo_calls_prefix:
  "prefix (undo_calls cmds s) (map UndoCall (rev [0..<length cmds]))"
proof -
  from undo_trace[of "length cmds" cmds s "[]"] obtain m where
    m: "m \<le> length cmds" "undo_calls cmds s = map UndoCall (rev [length cmds - m..<length cmds])"
    by (auto simp: undo_calls_def MultiCmds_undo_def)
  have "[0..<length cmds] = [0..<length cmds - m] @ [length cmds - m..<length cmds]"
    by (metis diff_le_self le_add_diff_inverse upt_add_eq_append zero_le)
  then have "rev [0..<length cmds] = rev [length cmds - m..<length cmds] @ rev [0..<length cmds - m]"
    by (metis rev_append)
  then show ?thesis using m(2) by (metis map_append prefixI)
qed

lemma execute_calls_all:
  assumes "\<forall>c\<in>set cmds. never_throws (execute c)"
  shows "execute_calls cmds s = map ExecuteCall [0..<length cmds]"
proof -
  from exec_trace[of cmds 0 s "[]"] execute_completes[OF assms, of 0 s "[]"]
  show ?thesis by (auto simp: execute_calls_def logged_members_def)
qed

lemma undo_calls_all:
  assumes "\<forall>c\<in>set cmds. never_throws (undo c)"
  shows "undo_calls cmds s = map UndoCall (rev [0..<length cmds])"
proof -
  from undo_trace[of "length cmds" cmds s "[]"] undo_completes[OF assms, of "length cmds" s "[]"]
  show ?thesis by (auto simp: undo_calls_def MultiCmds_undo_def)
qed

lemma logged_execute_state:
  "fst (state_of (MultiCmds_execute (map (\<lambda>(i, c). logged i c) (enumerate k cs)) (s, tr)))
     = state_of (MultiCmds_execute cs s)"
proof (induction cs arbitrary: k s tr)
  case Nil
  then show ?case by simp
next
  case (Cons c cs)
  then show ?case by (cases "execute c s") (simp_all add: logged_def)
qed

lemma logged_undo_state:
  "j \<le> length cs \<Longrightarrow>
   fst (state_of (undo_loop j (logged_members cs) (s, tr))) = state_of (undo_loop j cs s)"
proof (induction j arbitrary: s tr)
  case 0
  then show ?case by simp
next
  case (Suc j)
  then show ?case by (cases "undo (cs ! j) s") (simp_all add: logged_def logged_members_nth)
qed

text \<open>
  Claim C5. For every list of member commands, the composite command calls the members'
  \<open>execute\<close> in the order of the list and the members' \<open>undo\<close> in exactly the reverse
  order. The calls made are always an initial part of that order (a member that throws
  ends the loop), and all of it when no member throws.
\<close>

theorem MultiCmds_call_order:
  "prefix (execute_calls cmds s) (map ExecuteCall [0..<length cmds]) \<and>
   prefix (undo_calls cmds s) (map UndoCall (rev [0..<length cmds])) \<and>
   ((\<forall>c\<in>set cmds. never_throws (execute c)) \<longrightarrow>
      execute_calls cmds s = map ExecuteCall [0..<length cmds]) \<and>
   ((\<forall>c\<in>set cmds. never_throws (undo c)) \<longrightarrow>
      undo_calls cmds s = map UndoCall (rev [0..<length cmds]))"
  by (intro conjI impI execute_calls_prefix undo_calls_prefix execute_calls_all undo_calls_all)

theorem MultiCmds_call_order_witness:
  "never_throws (\<lambda>s::int. Done (s + 1)) \<and> never_throws (\<lambda>s::int. Done (2 * s)) \<and>
   never_throws (\<lambda>s::int. Done (s - 1)) \<and> never_throws (\<lambda>s::int. Done (s div 2)) \<and>
   execute_calls [\<lparr>execute = (\<lambda>s::int. Done (s + 1)), undo = (\<lambda>s. Done (s - 1))\<rparr>,
              \<lparr>execute = (\<lambda>s::int. Done (2 * s)), undo = (\<lambda>s. Done (s div 2))\<rparr>] 3
     = [ExecuteCall 0, ExecuteCall 1] \<and>
   undo_calls [\<lparr>execute = (\<lambda>s::int. Done (s + 1)), undo = (\<lambda>s. Done (s - 1))\<rparr>,
              \<lparr>execute = (\<lambda>s::int. Done (2 * s)), undo = (\<lambda>s. Done (s div 2))\<rparr>] 8
     = [UndoCall 1, UndoCall 0]"
  using MultiCmds_call_order [of "[\<lparr>execute = (\<lambda>s::int. Done (s + 1)), undo = (\<lambda>s. Done (s - 1))\<rparr>,
              \<lparr>execute = (\<lambda>s::int. Done (2 * s)), undo = (\<lambda>s. Done (s div 2))\<rparr>]"]
  by (simp add: never_throws_def upt_rec)

section \<open>Entity ids\<close>

lemma digit_char_simps:
  "digit_char 0 = CHR ''0''" "digit_char 1 = CHR ''1''" "digit_char 2 = CHR ''2''"
  "digit_char 3 = CHR ''3''" "digit_char 4 = CHR ''4''" "digit_char 5 = CHR ''5''"
  "digit_char 6 = CHR ''6''" "digit_char 7 = CHR ''7''" "digit_char 8 = CHR ''8''"
  "digit_char 9 = CHR ''9''" "digit_char (Suc 0) = CHR ''1''"
  by code_simp+

lemma digit36_18: "digit36 18 = CHR ''i''"
  by code_simp

lemma random_suffix_digits: "random_suffix rnd = map digit36 (take 9 rnd)"
  by (cases rnd) (simp_all add: random_suffix_def substr_def toString36_def take_map)

lemma random_suffix_length: "length (random_suffix rnd) = min 9 (length rnd)"
  by (simp add: random_suffix_digits min.commute)

text \<open>
  Claim C9, as the code has it. A generated id is \<open>obj_\<close>, the decimal timestamp, \<open>_\<close>
  and a suffix made of the first nine base-36 fraction digits of the random draw: at
  most nine characters, and fewer for a draw with fewer digits. Two ids generated in
  the same millisecond are equal exactly when their suffixes are equal.
\<close>

theorem generateId_form:
  "generateId now rnd = ''obj_'' @ show_nat now @ ''_'' @ map digit36 (take 9 rnd) \<and>
   length (random_suffix rnd) = min 9 (length rnd) \<and>
   (generateId now r1 = generateId now r2) = (random_suffix r1 = random_suffix r2)"
  by (simp add: generateId_def random_suffix_digits)

text \<open>
  Claim C9 as stated fails: the draw \<open>0.5\<close> prints as \<open>0.i\<close> and gives a suffix of one
  character, and two different draws that agree on their first nine base-36 digits give
  the same id in the same millisecond.
\<close>

theorem generateId_short_suffix:
  "generateId 1700000000000 [18] = ''obj_1700000000000_i'' \<and>
   length (random_suffix [18]) \<noteq> 9 \<and>
   [18, 0, 0, 0, 0, 0, 0, 0, 0, 3] \<noteq> [18, 0, 0, 0, 0, 0, 0, 0, 0, 5 :: nat] \<and>
   generateId 1700000000000 [18, 0, 0, 0, 0, 0, 0, 0, 0, 3]
     = generateId 1700000000000 [18, 0, 0, 0, 0, 0, 0, 0, 0, 5]"
  by (simp add: generateId_def random_suffix_digits show_nat.simps digit_char_simps digit36_18)

section \<open>Entity creation\<close>

lemma config_for_cases:
  "ToPropertyKey type \<notin> set Object_prototype_names \<Longrightarrow>
   config_for type = Own (case map_of OBJECT_TYPES (ToPropertyKey type) of Some c \<Rightarrow> c | None \<Rightarrow> box)"
  by (simp add: config_for_def lookup_property_def OBJECT_TYPES_def Object_prototype_names_def
      split: option.splits)

lemma cfg_material_known:
  "map_of OBJECT_TYPES k = Some c \<Longrightarrow> \<exists>m. MaterialsLibrary_get (Str (cfg_material c)) = Inr (Some m)"
  by (auto simp: OBJECT_TYPES_def MaterialsLibrary_get_def lookup_property_def createMaterials_def
      box_def platform_def wall_def cylinder_def ramp_def emissive_strip_def split: if_splits)

text \<open>
  For a type key that is not a name of \<open>Object.prototype\<close>, creation succeeds, with the
  box as the configuration of a key the registry does not have.
\<close>

lemma create_succeeds:
  assumes "ToPropertyKey type \<notin> set Object_prototype_names"
  shows "\<exists>obj. create type pos ident now rnd = Inr obj"
proof -
  let ?c = "case map_of OBJECT_TYPES (ToPropertyKey type) of Some c \<Rightarrow> c | None \<Rightarrow> box"
  have "\<exists>k. map_of OBJECT_TYPES k = Some ?c"
  proof (cases "map_of OBJECT_TYPES (ToPropertyKey type)")
    case None
    then show ?thesis by (auto simp: OBJECT_TYPES_def intro: exI[of _ "''box''"])
  next
    case (Some a)
    then show ?thesis by auto
  qed
  then obtain m where "MaterialsLibrary_get (Str (cfg_material ?c)) = Inr (Some m)"
    using cfg_material_known by blast
  then show ?thesis using config_for_cases[OF assms]
    by (simp add: create_def)
qed

lemma create_unknown_type:
  "\<exists>obj. create (Str ''pyramid'') pos Null now rnd = Inr obj \<and>
     geometry (mesh obj) = BoxGeometry (Dec 2 0) (Dec 2 0) (Dec 2 0) \<and>
     material (mesh obj) = Some (MeshStandardMaterial ''obstacle'')"
  by (simp add: create_def config_for_def lookup_property_def OBJECT_TYPES_def
      Object_prototype_names_def MaterialsLibrary_get_def createMaterials_def box_def)

text \<open>
  Claim C8 at the type key \<open>constructor\<close>: \<open>OBJECT_TYPES['constructor']\<close> is the
  inherited \<open>Object\<close> function, which is truthy, so the box is not substituted and
  \<open>config.createGeometry()\<close> throws a \<open>TypeError\<close>.
\<close>

theorem create_inherited_key_throws:
  "create (Str ''constructor'') pos Null now rnd
     = Inl (TypeError ''config.createGeometry is not a function'')"
  by (simp add: create_def config_for_def lookup_property_def OBJECT_TYPES_def
      Object_prototype_names_def)

section \<open>Parsing the text of a value gives the value back\<close>

declare parse_value.simps [simp del] parse_elems.simps [simp del] parse_members.simps [simp del]

lemma is_digit_digit_char [simp]: "d < 10 \<Longrightarrow> is_digit (digit_char d)"
  by (simp add: is_digit_def digit_char_def)

lemma digit_val_digit_char [simp]: "d < 10 \<Longrightarrow> digit_val (digit_char d) = d"
  by (simp add: digit_val_def digit_char_def)

lemma show_nat_digits: "\<forall>c\<in>set (show_nat n). is_digit c"
proof (induction n rule: show_nat.induct)
  case (1 n)
  then show ?case by (subst show_nat.simps) auto
qed

lemma show_nat_nonempty [simp]: "show_nat n \<noteq> []"
  by (subst show_nat.simps) simp

lemma nat_of_digits_snoc: "nat_of_digits (ds @ [c]) = 10 * nat_of_digits ds + digit_val c"
  by (simp add: nat_of_digits_def)

lemma nat_of_digits_show_nat [simp]: "nat_of_digits (show_nat n) = n"
proof (induction n rule: show_nat.induct)
  case (1 n)
  show ?case
  proof (cases "n < 10")
    case True
    then show ?thesis by (subst show_nat.simps) (simp add: nat_of_digits_def)
  next
    case False
    with 1 show ?thesis by (subst show_nat.simps) (simp add: nat_of_digits_snoc)
  qed
qed

lemma digit_char_zero_iff: "d < 10 \<Longrightarrow> digit_char d = CHR ''0'' \<longleftrightarrow> d = 0"
proof -
  assume "d < 10"
  have "CHR ''0'' = digit_char 0" by (simp add: digit_char_simps)
  moreover have "digit_char d = digit_char 0 \<longleftrightarrow> d = 0"
    using \<open>d < 10\<close> by (metis digit_val_digit_char zero_less_numeral)
  ultimately show ?thesis by simp
qed

lemma hd_show_nat: "hd (show_nat n) = CHR ''0'' \<longleftrightarrow> n = 0"
proof (induction n rule: show_nat.induct)
  case (1 n)
  show ?case
  proof (cases "n < 10")
    case True
    then show ?thesis by (subst show_nat.simps) (simp add: digit_char_zero_iff)
  next
    case False
    then have "n div 10 \<noteq> 0" by simp
    with 1 False show ?thesis by (subst show_nat.simps) (simp add: hd_append)
  qed
qed

lemma takeWhile_digits: "no_digit rest \<Longrightarrow> takeWhile is_digit (show_nat n @ rest) = show_nat n"
  using show_nat_digits[of n] by (cases rest) (auto simp: no_digit_def takeWhile_append1 takeWhile_append2)

lemma dropWhile_digits: "no_digit rest \<Longrightarrow> dropWhile is_digit (show_nat n @ rest) = rest"
  using show_nat_digits[of n] by (cases rest) (auto simp: no_digit_def dropWhile_append2 dropWhile_append1)

lemma is_digit_not_special:
  "is_digit c \<Longrightarrow> c \<noteq> CHR ''-'' \<and> c \<noteq> CHR ''+'' \<and> c \<noteq> CHR ''.'' \<and> c \<noteq> CHR ''e'' \<and> c \<noteq> CHR ''E''"
  by (auto simp: is_digit_def)

lemma no_digit_simps [simp]:
  "no_digit []" "no_digit (c # r) = (\<not> is_digit c)"
  by (simp_all add: no_digit_def)

lemma show_nat_0: "show_nat 0 = ''0''"
  by (subst show_nat.simps) (simp add: digit_char_simps)

lemma show_nat_Cons: "\<exists>c r. show_nat n = c # r \<and> is_digit c \<and> (c = CHR ''0'' \<longleftrightarrow> n = 0)"
proof -
  obtain c r where cr: "show_nat n = c # r" by (cases "show_nat n") auto
  moreover have "is_digit c" using show_nat_digits[of n] cr by simp
  moreover have "c = CHR ''0'' \<longleftrightarrow> n = 0" using hd_show_nat[of n] cr by simp
  ultimately show ?thesis by blast
qed

lemma parse_signed_digits_show_int:
  assumes "no_digit rest"
  shows "parse_signed_digits (show_int e @ rest) = Some (e, rest)"
proof (cases "e < 0")
  case True
  then show ?thesis using assms
    by (simp add: parse_signed_digits_def show_int_def takeWhile_digits dropWhile_digits)
next
  case False
  obtain c r where cr: "show_nat (nat e) = c # r" "is_digit c"
    using show_nat_Cons by blast
  have nz: "c \<noteq> CHR ''-''" "c \<noteq> CHR ''+''" using is_digit_not_special[OF cr(2)] by simp_all
  have "takeWhile is_digit ((c # r) @ rest) = c # r" "dropWhile is_digit ((c # r) @ rest) = rest"
    using takeWhile_digits[OF assms, of "nat e"] dropWhile_digits[OF assms, of "nat e"] cr by simp_all
  moreover have "nat_of_digits (c # r) = nat e" using cr nat_of_digits_show_nat[of "nat e"] by simp
  ultimately show ?thesis using False cr nz
    by (simp add: parse_signed_digits_def show_int_def del: takeWhile.simps dropWhile.simps)
qed

lemma parse_int_digits_show_nat:
  assumes "no_digit rest"
  shows "parse_int_digits (show_nat n @ rest) = Some (show_nat n, rest)"
proof (cases "n = 0")
  case True
  then show ?thesis by (simp add: show_nat_0 parse_int_digits_def)
next
  case False
  obtain c r where cr: "show_nat n = c # r" "is_digit c" "c = CHR ''0'' \<longleftrightarrow> n = 0"
    using show_nat_Cons by blast
  have "takeWhile is_digit ((c # r) @ rest) = c # r" "dropWhile is_digit ((c # r) @ rest) = rest"
    using takeWhile_digits[OF assms, of n] dropWhile_digits[OF assms, of n] cr by simp_all
  then show ?thesis using False cr
    by (simp add: parse_int_digits_def del: takeWhile.simps dropWhile.simps)
qed

lemma not_digit_e [simp]: "\<not> is_digit CHR ''e''"
  by (simp add: is_digit_def)

lemma parse_number_show_number:
  assumes "no_digit rest"
  shows "parse_number (show_number n @ rest) = Some (n, rest)"
proof -
  obtain m e where n: "n = Dec m e" by (cases n)
  have tail: "parse_fraction (CHR ''e'' # show_int e @ rest) = Some ([], CHR ''e'' # show_int e @ rest)"
    "parse_exponent (CHR ''e'' # show_int e @ rest) = Some (e, rest)"
    using parse_signed_digits_show_int[OF assms] by (simp_all add: parse_fraction_def parse_exponent_def)
  have nd: "no_digit (CHR ''e'' # show_int e @ rest)" by simp
  show ?thesis
  proof (cases "m < 0")
    case True
    then show ?thesis using n tail parse_int_digits_show_nat[OF nd, of "nat (- m)"]
      by (simp add: parse_number_def show_number_def show_int_def)
  next
    case False
    obtain c r where cr: "show_nat (nat m) = c # r" "is_digit c"
      using show_nat_Cons by blast
    have nz: "c \<noteq> CHR ''-''" using is_digit_not_special[OF cr(2)] by simp
    have "parse_int_digits ((c # r) @ CHR ''e'' # show_int e @ rest) = Some (c # r, CHR ''e'' # show_int e @ rest)"
      using parse_int_digits_show_nat[OF nd, of "nat m"] cr by simp
    moreover have "nat_of_digits (c # r) = nat m" using cr nat_of_digits_show_nat[of "nat m"] by simp
    ultimately show ?thesis using False n tail cr nz
      by (simp add: parse_number_def show_number_def show_int_def)
  qed
qed

lemma hex_val_hex_char: "d < 16 \<Longrightarrow> hex_val (hex_char d) = Some d"
  by (simp add: hex_val_def hex_char_def Let_def)

lemma hex_val_0: "hex_val CHR ''0'' = Some 0"
  by (simp add: hex_val_def)

lemma unicode_escape_control:
  assumes "(of_char c :: nat) < 32"
  shows "unicode_escape CHR ''0'' CHR ''0'' (hex_char (of_char c div 16)) (hex_char (of_char c mod 16)) = Some c"
proof -
  have "(of_char c :: nat) div 16 < 16" "(of_char c :: nat) mod 16 < 16" using assms by simp_all
  then show ?thesis
    by (simp add: unicode_escape_def hex_val_0 hex_val_hex_char Let_def)
qed

lemma parse_chars_escape_char:
  "parse_chars (escape_char c @ cs) =
     (case parse_chars cs of None \<Rightarrow> None | Some (s, rest) \<Rightarrow> Some (c # s, rest))"
proof -
  consider (q) "c = dquote" | (b) "c = backslash"
    | (named) "c \<noteq> dquote" "c \<noteq> backslash" "c \<in> {CHR 0x08, CHR 0x0C, CHR 0x0A, CHR 0x0D, CHR 0x09}"
    | (ctl) "c \<noteq> dquote" "c \<noteq> backslash" "c \<notin> {CHR 0x08, CHR 0x0C, CHR 0x0A, CHR 0x0D, CHR 0x09}" "(of_char c :: nat) < 32"
    | (plain) "c \<noteq> dquote" "c \<noteq> backslash" "\<not> (of_char c :: nat) < 32"
    by blast
  then show ?thesis
  proof cases
    case q
    then show ?thesis by (auto simp: escape_char_def simple_escape_def dquote_def backslash_def split: option.splits)
  next
    case b
    then show ?thesis by (auto simp: escape_char_def simple_escape_def dquote_def backslash_def split: option.splits)
  next
    case named
    then show ?thesis by (auto simp: escape_char_def simple_escape_def dquote_def backslash_def split: option.splits)
  next
    case ctl
    then show ?thesis using unicode_escape_control[OF ctl(4)]
      by (auto simp: escape_char_def dquote_def backslash_def split: option.splits)
  next
    case plain
    then have "c \<notin> {CHR 0x08, CHR 0x0C, CHR 0x0A, CHR 0x0D, CHR 0x09}" by auto
    with plain show ?thesis by (auto simp: escape_char_def split: option.splits)
  qed
qed

lemma parse_chars_quote_body:
  "parse_chars (concat (map escape_char s) @ dquote # rest) = Some (s, rest)"
proof (induction s)
  case Nil
  then show ?case by simp
next
  case (Cons c s)
  have "parse_chars (escape_char c @ (concat (map escape_char s) @ dquote # rest))
      = Some (c # s, rest)"
    by (subst parse_chars_escape_char) (simp add: Cons)
  then show ?case by simp
qed

lemma all_ws_simps [simp]: "all_ws []" "all_ws (newline gap ind)"
  by (simp_all add: all_ws_def newline_def is_ws_def list_all_iff)

lemma skip_ws_all_ws: "all_ws w \<Longrightarrow> \<not> is_ws c \<Longrightarrow> skip_ws (w @ c # r) = c # r"
  by (simp add: skip_ws_def all_ws_def list_all_iff dropWhile_append2)

lemma skip_ws_Cons: "\<not> is_ws c \<Longrightarrow> skip_ws (c # r) = c # r"
  by (simp add: skip_ws_def)

lemma not_ws_simps [simp]:
  "\<not> is_ws CHR ''[''" "\<not> is_ws CHR '']''" "\<not> is_ws CHR ''{''" "\<not> is_ws CHR ''}''"
  "\<not> is_ws CHR '',''" "\<not> is_ws CHR '':''" "\<not> is_ws dquote" "\<not> is_ws CHR ''-''"
  "\<not> is_ws CHR ''n''" "\<not> is_ws CHR ''t''" "\<not> is_ws CHR ''f''"
  by (simp_all add: is_ws_def dquote_def)

lemma is_digit_not_ws: "is_digit c \<Longrightarrow> \<not> is_ws c"
  by (auto simp: is_digit_def is_ws_def)

lemma is_ws_not_digit: "is_ws c \<Longrightarrow> \<not> is_digit c"
  by (auto simp: is_digit_def is_ws_def)

lemma not_digit_simps [simp]:
  "\<not> is_digit CHR '',''" "\<not> is_digit CHR '']''" "\<not> is_digit CHR ''}''"
  by (simp_all add: is_digit_def)

lemma is_digit_not_open:
  "is_digit c \<Longrightarrow> c \<noteq> CHR ''['' \<and> c \<noteq> CHR ''{'' \<and> c \<noteq> dquote \<and> c \<noteq> CHR ''t'' \<and> c \<noteq> CHR ''f'' \<and> c \<noteq> CHR ''n''
     \<and> c \<noteq> CHR '']'' \<and> c \<noteq> CHR ''}''"
  by (auto simp: is_digit_def dquote_def)

lemma parse_value_Cons:
  "skip_ws cs = c # r \<Longrightarrow> parse_value (Suc f) cs =
         (if c = CHR ''['' then
           (case skip_ws r of
              [] \<Rightarrow> None
            | c' # r' \<Rightarrow>
               if c' = CHR '']'' then Some (Arr [], r')
               else (case parse_elems f r of
                       None \<Rightarrow> None
                     | Some (xs, rest) \<Rightarrow> Some (Arr xs, rest)))
         else if c = CHR ''{'' then
           (case skip_ws r of
              [] \<Rightarrow> None
            | c' # r' \<Rightarrow>
               if c' = CHR ''}'' then Some (Obj [], r')
               else (case parse_members f r of
                       None \<Rightarrow> None
                     | Some (ps, rest) \<Rightarrow> Some (Obj (fold (\<lambda>(k, v) acc. obj_set acc k v) ps []), rest)))
         else if c = dquote then
           (case parse_chars r of
              None \<Rightarrow> None
            | Some (s, rest) \<Rightarrow> Some (Str s, rest))
         else if c = CHR ''t'' then
           (case strip_prefix ''true'' (c # r) of None \<Rightarrow> None | Some rest \<Rightarrow> Some (Bool True, rest))
         else if c = CHR ''f'' then
           (case strip_prefix ''false'' (c # r) of None \<Rightarrow> None | Some rest \<Rightarrow> Some (Bool False, rest))
         else if c = CHR ''n'' then
           (case strip_prefix ''null'' (c # r) of None \<Rightarrow> None | Some rest \<Rightarrow> Some (Null, rest))
         else
           (case parse_number (c # r) of
              None \<Rightarrow> None
            | Some (n, rest) \<Rightarrow> Some (Num n, rest)))"
  by (simp only: parse_value.simps list.case)

lemma pv_null: "skip_ws cs = ''null'' @ rest \<Longrightarrow> parse_value (Suc f) cs = Some (Null, rest)"
  by (simp add: parse_value_Cons strip_prefix_def dquote_def)

lemma pv_str:
  "skip_ws cs = dquote # r \<Longrightarrow> parse_chars r = Some (s, rest) \<Longrightarrow>
   parse_value (Suc f) cs = Some (Str s, rest)"
  by (simp add: parse_value_Cons dquote_def)

lemma pv_num:
  assumes "skip_ws cs = c # r" "c = CHR ''-'' \<or> is_digit c" "parse_number (c # r) = Some (n, rest)"
  shows "parse_value (Suc f) cs = Some (Num n, rest)"
proof -
  have "c \<noteq> CHR ''['' \<and> c \<noteq> CHR ''{'' \<and> c \<noteq> dquote \<and> c \<noteq> CHR ''t'' \<and> c \<noteq> CHR ''f'' \<and> c \<noteq> CHR ''n''"
  proof (cases "c = CHR ''-''")
    case True
    then show ?thesis by (simp add: dquote_def)
  next
    case False
    with assms(2) show ?thesis using is_digit_not_open[of c] by simp
  qed
  then show ?thesis using assms(1,3) by (simp add: parse_value_Cons)
qed

lemma pv_arr:
  "skip_ws cs = CHR ''['' # r \<Longrightarrow> skip_ws r = c' # r' \<Longrightarrow> c' \<noteq> CHR '']'' \<Longrightarrow>
   parse_elems f r = Some (xs, rest) \<Longrightarrow> parse_value (Suc f) cs = Some (Arr xs, rest)"
  by (simp add: parse_value_Cons)

lemma pe_last:
  "parse_value f cs = Some (x, r) \<Longrightarrow> skip_ws r = CHR '']'' # r' \<Longrightarrow>
   parse_elems (Suc f) cs = Some ([x], r')"
  by (simp add: parse_elems.simps)

lemma pm_last:
  "skip_ws cs = dquote # r0 \<Longrightarrow> parse_chars r0 = Some (k, r1) \<Longrightarrow> skip_ws r1 = CHR '':'' # r2 \<Longrightarrow>
   parse_value f r2 = Some (v, r3) \<Longrightarrow> skip_ws r3 = CHR ''}'' # r' \<Longrightarrow>
   parse_members (Suc f) cs = Some ([(k, v)], r')"
  by (simp add: parse_members.simps)

lemma pv_true: "skip_ws cs = ''true'' @ rest \<Longrightarrow> parse_value (Suc f) cs = Some (Bool True, rest)"
  by (simp add: parse_value_Cons strip_prefix_def dquote_def)

lemma pv_false: "skip_ws cs = ''false'' @ rest \<Longrightarrow> parse_value (Suc f) cs = Some (Bool False, rest)"
  by (simp add: parse_value_Cons strip_prefix_def dquote_def)

lemma pv_arr_empty:
  "skip_ws cs = CHR ''['' # r \<Longrightarrow> skip_ws r = CHR '']'' # rest \<Longrightarrow>
   parse_value (Suc f) cs = Some (Arr [], rest)"
  by (simp add: parse_value_Cons)

lemma pv_obj_empty:
  "skip_ws cs = CHR ''{'' # r \<Longrightarrow> skip_ws r = CHR ''}'' # rest \<Longrightarrow>
   parse_value (Suc f) cs = Some (Obj [], rest)"
  by (simp add: parse_value_Cons)

lemma pv_obj:
  "skip_ws cs = CHR ''{'' # r \<Longrightarrow> skip_ws r = c' # r' \<Longrightarrow> c' \<noteq> CHR ''}'' \<Longrightarrow>
   parse_members f r = Some (ps, rest) \<Longrightarrow>
   parse_value (Suc f) cs = Some (Obj (fold (\<lambda>(k, v) acc. obj_set acc k v) ps []), rest)"
  by (simp add: parse_value_Cons)

lemma pe_more:
  "parse_value f cs = Some (x, r) \<Longrightarrow> skip_ws r = CHR '','' # r' \<Longrightarrow>
   parse_elems f r' = Some (xs, rest) \<Longrightarrow> parse_elems (Suc f) cs = Some (x # xs, rest)"
  by (simp add: parse_elems.simps)

lemma pm_more:
  "skip_ws cs = dquote # r0 \<Longrightarrow> parse_chars r0 = Some (k, r1) \<Longrightarrow> skip_ws r1 = CHR '':'' # r2 \<Longrightarrow>
   parse_value f r2 = Some (v, r3) \<Longrightarrow> skip_ws r3 = CHR '','' # r' \<Longrightarrow>
   parse_members f r' = Some (ps, rest) \<Longrightarrow>
   parse_members (Suc f) cs = Some ((k, v) # ps, rest)"
  by (simp add: parse_members.simps)

subsection \<open>Objects without a repeated property\<close>

lemma obj_set_fresh: "k \<notin> fst ` set acc \<Longrightarrow> obj_set acc k v = acc @ [(k, v)]"
  by (induction acc) auto

lemma fold_obj_set_distinct:
  "distinct (map fst (acc @ ps)) \<Longrightarrow> fold (\<lambda>(k, v) acc. obj_set acc k v) ps acc = acc @ ps"
proof (induction ps arbitrary: acc)
  case Nil
  then show ?case by simp
next
  case (Cons p ps)
  obtain k v where p: "p = (k, v)" by (cases p)
  from Cons.prems p have fresh: "k \<notin> fst ` set acc" by auto
  from Cons.prems p have "distinct (map fst ((acc @ [(k, v)]) @ ps))" by auto
  from Cons.IH[OF this] show ?case using p fresh by (simp add: obj_set_fresh)
qed

subsection \<open>The first character of a value's text\<close>

lemma ser_elems_Cons: "xs \<noteq> [] \<Longrightarrow> ser_elems gap ind xs = CHR '','' # tl (ser_elems gap ind xs)"
  by (cases xs) simp_all

lemma ser_fields_Cons:
  "json_fields ps \<Longrightarrow> ps \<noteq> [] \<Longrightarrow> ser_fields gap ind ps = CHR '','' # tl (ser_fields gap ind ps)"
  by (cases ps) auto

lemma show_number_start: "\<exists>c r. show_number n = c # r \<and> (c = CHR ''-'' \<or> is_digit c)"
proof -
  obtain m e where n: "n = Dec m e" by (cases n)
  obtain c r where "show_nat (nat (if m < 0 then - m else m)) = c # r" "is_digit c"
    using show_nat_Cons by blast
  then show ?thesis using n
    by (cases "m < 0") (auto simp: show_number_def show_int_def)
qed

lemma ser_start: "\<exists>c r. ser gap ind v = c # r \<and> value_start c"
proof (cases v)
  case (Num n)
  obtain c r where "show_number n = c # r" "c = CHR ''-'' \<or> is_digit c"
    using show_number_start by blast
  then show ?thesis using Num is_digit_not_ws[of c] is_digit_not_open[of c]
    by (auto simp: value_start_def)
qed (auto simp: value_start_def quote_def dquote_def is_ws_def)

lemma skip_ws_ser:
  "all_ws w \<Longrightarrow> skip_ws (w @ ser gap ind v @ rest) = ser gap ind v @ rest"
proof -
  assume w: "all_ws w"
  obtain c r where cr: "ser gap ind v = c # r" "value_start c" using ser_start by blast
  then show ?thesis using skip_ws_all_ws[OF w, of c "r @ rest"] by (simp add: value_start_def)
qed

lemma no_digit_ws: "all_ws w \<Longrightarrow> \<not> is_digit c \<Longrightarrow> no_digit (w @ c # rest)"
  by (cases w) (auto simp: all_ws_def is_ws_not_digit)

lemma colon_form: "\<exists>cw. colon gap = CHR '':'' # cw \<and> all_ws cw"
  by (auto simp: colon_def all_ws_def is_ws_def)

lemma atom_case:
  assumes "v = Null \<or> v = Bool b \<or> v = Num n \<or> v = Str s" "1 \<le> f" "all_ws w" "no_digit rest"
  shows "parse_value f (w @ ser gap ind v @ rest) = Some (v, rest)"
proof -
  obtain f' where f: "f = Suc f'" using assms(2) by (cases f) auto
  have sk: "skip_ws (w @ ser gap ind v @ rest) = ser gap ind v @ rest"
    by (rule skip_ws_ser[OF assms(3)])
  from assms(1) consider "v = Null" | "v = Bool True" | "v = Bool False" | "v = Num n" | "v = Str s"
    by (cases b) auto
  then show ?thesis
  proof cases
    case 1
    with sk show ?thesis by (simp add: pv_null f)
  next
    case 2
    with sk show ?thesis by (simp add: pv_true f)
  next
    case 3
    with sk show ?thesis by (simp add: pv_false f)
  next
    case 4
    obtain c r where cr: "show_number n = c # r" "c = CHR ''-'' \<or> is_digit c"
      using show_number_start by blast
    have pn: "parse_number (c # r @ rest) = Some (n, rest)"
      using parse_number_show_number[OF assms(4), of n] cr by simp
    have sk': "skip_ws (w @ ser gap ind v @ rest) = c # r @ rest" using sk 4 cr by simp
    show ?thesis unfolding f 4 using pv_num[OF sk' cr(2) pn] 4 by simp
  next
    case 5
    have "skip_ws (w @ ser gap ind v @ rest) = dquote # (concat (map escape_char s) @ dquote # rest)"
      using sk 5 by (simp add: quote_def)
    from pv_str[OF this parse_chars_quote_body] show ?thesis unfolding f using 5 by simp
  qed
qed

lemma arr_empty_case:
  assumes "1 \<le> f" "all_ws w"
  shows "parse_value f (w @ ser gap ind (Arr []) @ rest) = Some (Arr [], rest)"
proof -
  obtain f' where f: "f = Suc f'" using assms(1) by (cases f) auto
  have "skip_ws (w @ CHR ''['' # CHR '']'' # rest) = CHR ''['' # CHR '']'' # rest"
    by (rule skip_ws_all_ws[OF assms(2)]) simp
  then show ?thesis unfolding f
    by (intro pv_arr_empty[where r="CHR '']'' # rest"]) (simp_all add: skip_ws_Cons)
qed

lemma obj_empty_case:
  assumes "1 \<le> f" "all_ws w"
  shows "parse_value f (w @ ser gap ind (Obj []) @ rest) = Some (Obj [], rest)"
proof -
  obtain f' where f: "f = Suc f'" using assms(1) by (cases f) auto
  have "skip_ws (w @ CHR ''{'' # CHR ''}'' # rest) = CHR ''{'' # CHR ''}'' # rest"
    by (rule skip_ws_all_ws[OF assms(2)]) simp
  then show ?thesis unfolding f
    by (intro pv_obj_empty[where r="CHR ''}'' # rest"]) (simp_all add: skip_ws_Cons)
qed

lemma arr_case:
  assumes IH: "\<And>f w rest. nodes_list xs \<le> f \<Longrightarrow> all_ws w \<Longrightarrow>
      parse_elems f (tl (ser_elems gap (ind + gap) xs) @ w @ CHR '']'' # rest) = Some (xs, rest)"
    and "xs \<noteq> []" "nodes (Arr xs) \<le> f" "all_ws w"
  shows "parse_value f (w @ ser gap ind (Arr xs) @ rest) = Some (Arr xs, rest)"
proof -
  obtain f' where f: "f = Suc f'" "nodes_list xs \<le> f'" using assms(3) by (cases f) auto
  obtain x xs' where xs: "xs = x # xs'" using assms(2) by (cases xs) auto
  let ?r = "tl (ser_elems gap (ind + gap) xs) @ newline gap ind @ CHR '']'' # rest"
  have 1: "skip_ws (w @ ser gap ind (Arr xs) @ rest) = CHR ''['' # ?r"
    using assms(2) skip_ws_all_ws[OF assms(4), of "CHR ''[''" ?r] by simp
  obtain c r where cr: "ser gap (ind + gap) x = c # r" "value_start c" using ser_start by blast
  have "?r = newline gap (ind + gap) @ ser gap (ind + gap) x
      @ (ser_elems gap (ind + gap) xs' @ newline gap ind @ CHR '']'' # rest)"
    using xs by simp
  then have 2: "skip_ws ?r = c # (r @ ser_elems gap (ind + gap) xs' @ newline gap ind @ CHR '']'' # rest)"
    using skip_ws_ser[of "newline gap (ind + gap)" gap "ind + gap" x] cr by simp
  have 3: "c \<noteq> CHR '']''" using cr(2) by (simp add: value_start_def)
  have 4: "parse_elems f' ?r = Some (xs, rest)" by (rule IH[OF f(2)]) simp
  show ?thesis unfolding f(1) by (rule pv_arr[OF 1 2 3 4])
qed

lemma obj_case:
  assumes IH: "\<And>f w rest. nodes_fields ps \<le> f \<Longrightarrow> all_ws w \<Longrightarrow>
      parse_members f (tl (ser_fields gap (ind + gap) ps) @ w @ CHR ''}'' # rest) = Some (ps, rest)"
    and "ps \<noteq> []" "json_fields ps" "distinct (map fst ps)" "nodes (Obj ps) \<le> f" "all_ws w"
  shows "parse_value f (w @ ser gap ind (Obj ps) @ rest) = Some (Obj ps, rest)"
proof -
  obtain f' where f: "f = Suc f'" "nodes_fields ps \<le> f'" using assms(5) by (cases f) auto
  obtain k v ps' where ps: "ps = (k, v) # ps'" using assms(2) by (cases ps) auto
  have v: "v \<noteq> Undefined" using assms(3) ps by auto
  have ne: "ser_fields gap (ind + gap) ps \<noteq> []"
    using ps v by simp
  let ?r = "tl (ser_fields gap (ind + gap) ps) @ newline gap ind @ CHR ''}'' # rest"
  have 1: "skip_ws (w @ ser gap ind (Obj ps) @ rest) = CHR ''{'' # ?r"
    using ne skip_ws_all_ws[OF assms(6), of "CHR ''{''" ?r] by simp
  have "?r = newline gap (ind + gap) @ dquote # (concat (map escape_char k) @ dquote #
      colon gap @ ser gap (ind + gap) v @ ser_fields gap (ind + gap) ps' @ newline gap ind @ CHR ''}'' # rest)"
    using ps v by (simp add: quote_def)
  then have 2: "skip_ws ?r = dquote # (concat (map escape_char k) @ dquote #
      colon gap @ ser gap (ind + gap) v @ ser_fields gap (ind + gap) ps' @ newline gap ind @ CHR ''}'' # rest)"
    using skip_ws_all_ws[of "newline gap (ind + gap)" dquote] by simp
  have 3: "dquote \<noteq> CHR ''}''" by (simp add: dquote_def)
  have 4: "parse_members f' ?r = Some (ps, rest)" by (rule IH[OF f(2)]) simp
  have "fold (\<lambda>(k, v) acc. obj_set acc k v) ps [] = ps"
    using fold_obj_set_distinct[of "[]" ps] assms(4) by simp
  then show ?thesis unfolding f(1) using pv_obj[OF 1 2 3 4] by simp
qed

lemma elems_case:
  assumes IHx: "\<And>f w rest. nodes x \<le> f \<Longrightarrow> all_ws w \<Longrightarrow> no_digit rest \<Longrightarrow>
      parse_value f (w @ ser gap ind x @ rest) = Some (x, rest)"
    and IHxs: "\<And>f w rest. xs \<noteq> [] \<Longrightarrow> nodes_list xs \<le> f \<Longrightarrow> all_ws w \<Longrightarrow>
      parse_elems f (tl (ser_elems gap ind xs) @ w @ CHR '']'' # rest) = Some (xs, rest)"
    and "nodes_list (x # xs) \<le> f" "all_ws w"
  shows "parse_elems f (tl (ser_elems gap ind (x # xs)) @ w @ CHR '']'' # rest) = Some (x # xs, rest)"
proof -
  obtain f' where f: "f = Suc f'" "nodes x \<le> f'" "nodes_list xs \<le> f'"
    using assms(3) by (cases f) auto
  let ?REST = "ser_elems gap ind xs @ w @ CHR '']'' # rest"
  have cs: "tl (ser_elems gap ind (x # xs)) @ w @ CHR '']'' # rest
      = newline gap ind @ ser gap ind x @ ?REST" by simp
  have nd: "no_digit ?REST"
  proof (cases "xs = []")
    case True
    then show ?thesis using no_digit_ws[OF assms(4)] by simp
  next
    case False
    then show ?thesis using ser_elems_Cons[OF False, of gap ind]
      by (metis append_Cons no_digit_simps(2) not_digit_simps(1))
  qed
  have pv: "parse_value f' (newline gap ind @ ser gap ind x @ ?REST) = Some (x, ?REST)"
    by (rule IHx[OF f(2) _ nd]) simp
  show ?thesis
  proof (cases "xs = []")
    case True
    have "skip_ws ?REST = CHR '']'' # rest" using True skip_ws_all_ws[OF assms(4)] by simp
    from pe_last[OF pv this] show ?thesis unfolding cs f(1) using True by simp
  next
    case False
    have R: "?REST = CHR '','' # (tl (ser_elems gap ind xs) @ w @ CHR '']'' # rest)"
      using ser_elems_Cons[OF False, of gap ind] by (metis append_Cons)
    have sk: "skip_ws ?REST = CHR '','' # (tl (ser_elems gap ind xs) @ w @ CHR '']'' # rest)"
      by (subst R, rule skip_ws_Cons) simp
    from pe_more[OF pv sk IHxs[OF False f(3) assms(4)]] show ?thesis unfolding cs f(1) .
  qed
qed

lemma fields_case:
  assumes IHv: "\<And>f w rest. nodes v \<le> f \<Longrightarrow> all_ws w \<Longrightarrow> no_digit rest \<Longrightarrow>
      parse_value f (w @ ser gap ind v @ rest) = Some (v, rest)"
    and IHps: "\<And>f w rest. ps \<noteq> [] \<Longrightarrow> nodes_fields ps \<le> f \<Longrightarrow> all_ws w \<Longrightarrow>
      parse_members f (tl (ser_fields gap ind ps) @ w @ CHR ''}'' # rest) = Some (ps, rest)"
    and "v \<noteq> Undefined" "json_fields ps" "nodes_fields ((k, v) # ps) \<le> f" "all_ws w"
  shows "parse_members f (tl (ser_fields gap ind ((k, v) # ps)) @ w @ CHR ''}'' # rest)
      = Some ((k, v) # ps, rest)"
proof -
  obtain f' where f: "f = Suc f'" "nodes v \<le> f'" "nodes_fields ps \<le> f'"
    using assms(5) by (cases f) auto
  obtain cw where cw: "colon gap = CHR '':'' # cw" "all_ws cw" using colon_form by blast
  let ?REST = "ser_fields gap ind ps @ w @ CHR ''}'' # rest"
  let ?r2 = "cw @ ser gap ind v @ ?REST"
  let ?r1 = "CHR '':'' # ?r2"
  let ?r0 = "concat (map escape_char k) @ dquote # ?r1"
  have cs: "tl (ser_fields gap ind ((k, v) # ps)) @ w @ CHR ''}'' # rest
      = newline gap ind @ dquote # ?r0"
    using assms(3) cw by (simp add: quote_def)
  have 1: "skip_ws (newline gap ind @ dquote # ?r0) = dquote # ?r0"
    by (rule skip_ws_all_ws) simp_all
  have 2: "parse_chars ?r0 = Some (k, ?r1)" by (rule parse_chars_quote_body)
  have 3: "skip_ws ?r1 = CHR '':'' # ?r2" by (rule skip_ws_Cons) simp
  have nd: "no_digit ?REST"
  proof (cases "ps = []")
    case True
    then show ?thesis using no_digit_ws[OF assms(6)] by simp
  next
    case False
    then show ?thesis using ser_fields_Cons[OF assms(4) False, of gap ind]
      by (metis append_Cons no_digit_simps(2) not_digit_simps(1))
  qed
  have 4: "parse_value f' ?r2 = Some (v, ?REST)" by (rule IHv[OF f(2) cw(2) nd])
  show ?thesis
  proof (cases "ps = []")
    case True
    have "skip_ws ?REST = CHR ''}'' # rest" using True skip_ws_all_ws[OF assms(6)] by simp
    from pm_last[OF 1 2 3 4 this] show ?thesis unfolding cs f(1) using True by simp
  next
    case False
    have R: "?REST = CHR '','' # (tl (ser_fields gap ind ps) @ w @ CHR ''}'' # rest)"
      using ser_fields_Cons[OF assms(4) False, of gap ind] by (metis append_Cons)
    have sk: "skip_ws ?REST = CHR '','' # (tl (ser_fields gap ind ps) @ w @ CHR ''}'' # rest)"
      by (subst R, rule skip_ws_Cons) simp
    from pm_more[OF 1 2 3 4 sk IHps[OF False f(3) assms(6)]] show ?thesis unfolding cs f(1) .
  qed
qed

lemma parse_ser:
  "json_value v \<longrightarrow> (\<forall>f w rest. nodes v \<le> f \<longrightarrow> all_ws w \<longrightarrow> no_digit rest \<longrightarrow>
      parse_value f (w @ ser gap ind v @ rest) = Some (v, rest))"
  "json_values xs \<longrightarrow> xs \<noteq> [] \<longrightarrow> (\<forall>f w rest. nodes_list xs \<le> f \<longrightarrow> all_ws w \<longrightarrow>
      parse_elems f (tl (ser_elems gap ind xs) @ w @ CHR '']'' # rest) = Some (xs, rest))"
  "json_fields ps \<longrightarrow> ps \<noteq> [] \<longrightarrow> (\<forall>f w rest. nodes_fields ps \<le> f \<longrightarrow> all_ws w \<longrightarrow>
      parse_members f (tl (ser_fields gap ind ps) @ w @ CHR ''}'' # rest) = Some (ps, rest))"
proof (induction gap ind v and gap ind xs and gap ind ps rule: ser_ser_elems_ser_fields.induct)
  case (1 gap ind)
  then show ?case by simp
next
  case (2 gap ind)
  then show ?case using atom_case[of Null] by simp
next
  case (3 gap ind b)
  then show ?case using atom_case[of "Bool b" b] by simp
next
  case (4 gap ind n)
  then show ?case using atom_case[of "Num n" _ n] by simp
next
  case (5 gap ind s)
  then show ?case using atom_case[of "Str s" _ _ s] by simp
next
  case (6 gap ind xs)
  show ?case
  proof (cases "xs = []")
    case True
    then show ?thesis using arr_empty_case by simp
  next
    case False
    show ?thesis
    proof (intro impI allI)
      fix f w rest
      assume a: "json_value (Arr xs)" "nodes (Arr xs) \<le> f" "all_ws w"
      have "\<And>f w rest. nodes_list xs \<le> f \<Longrightarrow> all_ws w \<Longrightarrow>
        parse_elems f (tl (ser_elems gap (ind + gap) xs) @ w @ CHR '']'' # rest) = Some (xs, rest)"
        using 6[OF False] a(1) False by simp
      from arr_case[OF this False a(2,3)]
      show "parse_value f (w @ ser gap ind (Arr xs) @ rest) = Some (Arr xs, rest)" .
    qed
  qed
next
  case (7 gap ind ps)
  show ?case
  proof (cases "ps = []")
    case True
    then show ?thesis using obj_empty_case by simp
  next
    case False
    show ?thesis
    proof (intro impI allI)
      fix f w rest
      assume a: "json_value (Obj ps)" "nodes (Obj ps) \<le> f" "all_ws w"
      have "\<And>f w rest. nodes_fields ps \<le> f \<Longrightarrow> all_ws w \<Longrightarrow>
        parse_members f (tl (ser_fields gap (ind + gap) ps) @ w @ CHR ''}'' # rest) = Some (ps, rest)"
        using 7(1) a(1) False by simp
      from obj_case[OF this False _ _ a(2,3)] a(1)
      show "parse_value f (w @ ser gap ind (Obj ps) @ rest) = Some (Obj ps, rest)" by simp
    qed
  qed
next
  case (8 gap ind)
  then show ?case by simp
next
  case (9 gap ind x xs)
  show ?case
  proof (intro impI allI)
    fix f w rest
    assume a: "json_values (x # xs)" "nodes_list (x # xs) \<le> f" "all_ws w"
    have x: "\<And>f w rest. nodes x \<le> f \<Longrightarrow> all_ws w \<Longrightarrow> no_digit rest \<Longrightarrow>
      parse_value f (w @ ser gap ind x @ rest) = Some (x, rest)"
      using 9(1) a(1) by simp
    have xs: "\<And>f w rest. xs \<noteq> [] \<Longrightarrow> nodes_list xs \<le> f \<Longrightarrow> all_ws w \<Longrightarrow>
      parse_elems f (tl (ser_elems gap ind xs) @ w @ CHR '']'' # rest) = Some (xs, rest)"
      using 9(2) a(1) by simp
    from elems_case[OF x xs a(2,3)]
    show "parse_elems f (tl (ser_elems gap ind (x # xs)) @ w @ CHR '']'' # rest) = Some (x # xs, rest)" .
  qed
next
  case (10 gap ind)
  then show ?case by simp
next
  case (11 gap ind k v ps)
  show ?case
  proof (intro impI allI)
    fix f w rest
    assume a: "json_fields ((k, v) # ps)" "nodes_fields ((k, v) # ps) \<le> f" "all_ws w"
    then have v: "v \<noteq> Undefined" "json_value v" "json_fields ps" by auto
    have iv: "\<And>f w rest. nodes v \<le> f \<Longrightarrow> all_ws w \<Longrightarrow> no_digit rest \<Longrightarrow>
      parse_value f (w @ ser gap ind v @ rest) = Some (v, rest)"
      using 11(2)[OF v(1)] v(2) by simp
    have ips: "\<And>f w rest. ps \<noteq> [] \<Longrightarrow> nodes_fields ps \<le> f \<Longrightarrow> all_ws w \<Longrightarrow>
      parse_members f (tl (ser_fields gap ind ps) @ w @ CHR ''}'' # rest) = Some (ps, rest)"
      using 11(3)[OF v(1)] v(3) by simp
    from fields_case[OF iv ips v(1) v(3) a(2,3)]
    show "parse_members f (tl (ser_fields gap ind ((k, v) # ps)) @ w @ CHR ''}'' # rest)
      = Some ((k, v) # ps, rest)" .
  qed
qed

lemma nodes_le_length:
  "json_value v \<longrightarrow> nodes v \<le> length (ser gap ind v)"
  "json_values xs \<longrightarrow> nodes_list xs \<le> length (ser_elems gap ind xs)"
  "json_fields ps \<longrightarrow> nodes_fields ps \<le> length (ser_fields gap ind ps)"
proof (induction gap ind v and gap ind xs and gap ind ps rule: ser_ser_elems_ser_fields.induct)
  case (4 gap ind n)
  obtain c r where "show_number n = c # r" using show_number_start by blast
  then show ?case by simp
next
  case (5 gap ind s)
  then show ?case by (simp add: quote_def)
next
  case (6 gap ind xs)
  then show ?case by (cases xs) auto
next
  case (7 gap ind ps)
  then show ?case by (cases ps) auto
qed auto

text \<open>
  For every JSON value and every indentation width, \<open>JSON.stringify\<close> gives a text and
  \<open>JSON.parse\<close> of that text gives the value back.
\<close>

lemma JSON_parse_stringify:
  assumes "json_value v"
  shows "\<exists>text. JSON_stringify gap v = Some text \<and> JSON_parse text = Some v"
proof -
  have u: "v \<noteq> Undefined" using assms by auto
  have "nodes v \<le> Suc (2 * length (ser gap 0 v))" using nodes_le_length(1)[of v gap 0] assms by simp
  with parse_ser(1)[of v gap 0] assms
  have "parse_value (Suc (2 * length (ser gap 0 v))) ([] @ ser gap 0 v @ []) = Some (v, [])"
    by (simp del: append_Nil append_Nil2)
  then show ?thesis using u by (simp add: JSON_stringify_def JSON_parse_def skip_ws_def)
qed


section \<open>Commands on a missing target, and merged commands\<close>

lemma RemoveObject_execute_null_target:
  "RemoveObject_execute removeObject deselect indexOf \<lparr>ro_object = None, ro_parent = p, ro_index = i\<rparr> ed
     = (\<lparr>ro_object = None, ro_parent = p, ro_index = i\<rparr>, Done ed)"
  by (simp add: RemoveObject_execute_def)

text \<open>
  Claim C2 at a \<open>SetPositionCommand\<close> whose \<open>object\<close> is \<open>null\<close>: \<open>undo\<close> and \<open>execute\<close>
  read \<open>this.object.mesh\<close> and throw a \<open>TypeError\<close>; the editor is left as it was, but the
  call is not a silent no-op.
\<close>

theorem SetPosition_null_target_throws:
  "SetPosition_undo \<lparr>object = None, newPosition = p, oldPosition = q\<rparr> ed
     = Threw (TypeError ''Cannot read properties of null (reading mesh)'') ed \<and>
   SetPosition_execute \<lparr>object = None, newPosition = p, oldPosition = q\<rparr> ed
     = Threw (TypeError ''Cannot read properties of null (reading mesh)'') ed"
  by (simp add: SetPosition_undo_def SetPosition_execute_def set_mesh_position_def)

lemma position_with_mesh [simp]:
  "position (mesh_of (with_mesh (\<lambda>m. m\<lparr>position := p\<rparr>) h)) = p"
  by (cases h) simp_all

lemma set_mesh_position_Some:
  "set_mesh_position (Some r) p ed
     = Done (ed\<lparr>store := (store ed)(r := with_mesh (\<lambda>m. m\<lparr>position := p\<rparr>) (store ed r)),
               signals := signals ed @ [objectChanged r]\<rparr>)"
  by (simp add: set_mesh_position_def)

text \<open>
  Claim C6. A drag of the object at \<open>r\<close> through \<open>p1\<close>, \<open>p2\<close>, \<open>p3\<close>: the first command
  records the position the mesh has before it, the later two are merged into it with
  \<open>update\<close> and the merged command is executed. It is one command, its \<open>execute\<close> puts the
  mesh at \<open>p3\<close>, and one \<open>undo\<close> of it puts the mesh back where it was before the first
  command, whatever old positions the merged commands carried.
\<close>

theorem merged_SetPosition_undo_restores_start:
  "\<exists>c1 ed1 c2 ed2 c3 ed3 ed4.
     SetPositionCommand_new ed (Some r) (Some p1) None = Inr c1 \<and>
     SetPosition_execute c1 ed = Done ed1 \<and>
     SetPositionCommand_new ed1 (Some r) (Some p2) o2 = Inr c2 \<and>
     SetPosition_execute (SetPosition_update c1 c2) ed1 = Done ed2 \<and>
     SetPositionCommand_new ed2 (Some r) (Some p3) o3 = Inr c3 \<and>
     SetPosition_execute (SetPosition_update (SetPosition_update c1 c2) c3) ed2 = Done ed3 \<and>
     position (mesh_of (store ed3 r)) = p3 \<and>
     SetPosition_undo (SetPosition_update (SetPosition_update c1 c2) c3) ed3 = Done ed4 \<and>
     position (mesh_of (store ed4 r)) = position (mesh_of (store ed r))"
  by (simp add: SetPositionCommand_new_def SetPosition_execute_def SetPosition_undo_def
      SetPosition_update_def set_mesh_position_Some)

section \<open>Drift between the entity data and the mesh\<close>

lemma map_of_obj_set: "map_of (obj_set ps k v) k' = (if k' = k then Some v else map_of ps k')"
  by (induction ps) auto

lemma get_member_Obj_set:
  "get_member (Obj (obj_set ps k v)) k' = (if k' = k then Inr v else get_member (Obj ps) k')"
  by (simp add: map_of_obj_set)

lemma set_axis_simps:
  "set_axis ''x'' v p = p\<lparr>vx := v\<rparr>" "set_axis ''y'' v p = p\<lparr>vy := v\<rparr>" "set_axis ''z'' v p = p\<lparr>vz := v\<rparr>"
  by (simp_all add: set_axis_def)

lemma data_vector_set_other:
  assumes "set_data_component d field axis v = Inr d'" "field' \<noteq> field"
  shows "data_vector d' field' = data_vector d field'"
  using assms
  by (cases d) (auto simp: set_data_component_def data_vector_def map_of_obj_set
      split: sum.splits option.splits)

lemma data_vector_set_same:
  assumes "data_vector d field = Some p" "axis \<in> {''x'', ''y'', ''z''}"
  shows "\<exists>d'. set_data_component d field axis v = Inr d' \<and>
           data_vector d' field = Some (set_axis axis v p)"
proof -
  from assms(1) obtain ps where ps: "get_member d field = Inr (Obj ps)"
    by (auto simp: data_vector_def split: sum.splits jsval.splits)
  then obtain qs where d: "d = Obj qs" by (cases d) auto
  show ?thesis using assms ps d
    by (auto simp: set_data_component_def data_vector_def map_of_obj_set set_axis_def)
qed

lemma write_both_in_sync:
  assumes "in_sync obj" "field \<in> {''position'', ''rotation'', ''scale''}" "axis \<in> {''x'', ''y'', ''z''}"
  shows "\<exists>obj'. write_both field axis v obj = Done obj' \<and> in_sync obj'"
proof -
  from assms(1) have dv: "data_vector (data obj) ''position'' = Some (position (mesh obj))"
    "data_vector (data obj) ''rotation'' = Some (rotation (mesh obj))"
    "data_vector (data obj) ''scale'' = Some (scale (mesh obj))"
    by (auto simp: in_sync_def)
  from assms(2) consider "field = ''position''" | "field = ''rotation''" | "field = ''scale''" by auto
  then show ?thesis
  proof cases
    case 1
    from data_vector_set_same[OF dv(1) assms(3), of v] obtain d' where
      d': "set_data_component (data obj) ''position'' axis v = Inr d'"
          "data_vector d' ''position'' = Some (set_axis axis v (position (mesh obj)))" by blast
    from data_vector_set_other[OF d'(1), of "''rotation''"] data_vector_set_other[OF d'(1), of "''scale''"]
    show ?thesis using d' dv 1 by (simp add: write_both_def in_sync_def Let_def)
  next
    case 2
    from data_vector_set_same[OF dv(2) assms(3), of v] obtain d' where
      d': "set_data_component (data obj) ''rotation'' axis v = Inr d'"
          "data_vector d' ''rotation'' = Some (set_axis axis v (rotation (mesh obj)))" by blast
    from data_vector_set_other[OF d'(1), of "''position''"] data_vector_set_other[OF d'(1), of "''scale''"]
    show ?thesis using d' dv 2 by (simp add: write_both_def in_sync_def Let_def)
  next
    case 3
    from data_vector_set_same[OF dv(3) assms(3), of v] obtain d' where
      d': "set_data_component (data obj) ''scale'' axis v = Inr d'"
          "data_vector d' ''scale'' = Some (set_axis axis v (scale (mesh obj)))" by blast
    from data_vector_set_other[OF d'(1), of "''rotation''"] data_vector_set_other[OF d'(1), of "''position''"]
    show ?thesis using d' dv 3 by (simp add: write_both_def in_sync_def Let_def)
  qed
qed

lemma in_sync_data_Obj: "in_sync obj \<Longrightarrow> \<exists>qs. data obj = Obj qs"
  by (cases "data obj") (auto simp: in_sync_def data_vector_def)

lemma data_vector_obj_set:
  "field \<noteq> k \<Longrightarrow> data_vector (Obj (obj_set qs k v)) field = data_vector (Obj qs) field"
  by (simp add: data_vector_def map_of_obj_set)

lemma write_both_Done_in_sync:
  assumes "in_sync obj" "write_both field axis r obj = Done obj'"
    "field \<in> {''position'', ''rotation'', ''scale''}" "axis \<in> {''x'', ''y'', ''z''}"
  shows "in_sync obj'"
  using write_both_in_sync[OF assms(1,3,4), of r] assms(2) by auto

lemma update_material_in_sync:
  assumes "in_sync obj" "PropertyUpdater_update js obj ''materialType'' v = Done obj'"
  shows "in_sync obj'"
proof -
  from in_sync_data_Obj[OF assms(1)] obtain qs where qs: "data obj = Obj qs" by blast
  show ?thesis
  proof (cases "MaterialsLibrary_has v")
    case True
    with assms(2) qs obtain mat where
      "obj' = obj\<lparr>mesh := (mesh obj)\<lparr>material := mat\<rparr>, data := Obj (obj_set qs ''materialType'' v)\<rparr>"
      by (auto simp: PropertyUpdater_update_def Let_def split: sum.splits)
    with assms(1) qs show ?thesis
      by (simp add: in_sync_def data_vector_obj_set)
  next
    case False
    with assms show ?thesis by (simp add: PropertyUpdater_update_def)
  qed
qed

lemma update_unfold:
  "PropertyUpdater_update js obj property v = Done obj' \<Longrightarrow>
   property = ''materialType'' \<or> obj' = obj \<or>
   (\<exists>field axis r. write_both field axis r obj = Done obj' \<and>
      field \<in> {''position'', ''rotation'', ''scale''} \<and> axis \<in> {''x'', ''y'', ''z''})"
  unfolding PropertyUpdater_update_def
  by (simp split: if_splits sum.splits) blast+

lemma update_preserves_sync:
  assumes "in_sync obj" "PropertyUpdater_update js obj property v = Done obj'"
  shows "in_sync obj'"
  using update_unfold[OF assms(2)] update_material_in_sync assms write_both_Done_in_sync[OF assms(1)]
  by blast

lemma snapObject_preserves_sync:
  assumes "in_sync obj"
  shows "\<exists>obj'. snapObject js (Some obj) = Done (Some obj') \<and> in_sync obj'"
proof -
  let ?p = "snapPosition js (position (mesh obj))"
  from assms have dv: "data_vector (data obj) ''position'' = Some (position (mesh obj))"
    "data_vector (data obj) ''rotation'' = Some (rotation (mesh obj))"
    "data_vector (data obj) ''scale'' = Some (scale (mesh obj))"
    by (auto simp: in_sync_def)
  from data_vector_set_same[OF dv(1), of "''x''" "vx ?p"] obtain d1 where
    d1: "set_data_component (data obj) ''position'' ''x'' (vx ?p) = Inr d1"
        "data_vector d1 ''position'' = Some (set_axis ''x'' (vx ?p) (position (mesh obj)))" by blast
  from data_vector_set_same[OF d1(2), of "''z''" "vz ?p"] obtain d2 where
    d2: "set_data_component d1 ''position'' ''z'' (vz ?p) = Inr d2"
        "data_vector d2 ''position'' = Some (set_axis ''z'' (vz ?p) (set_axis ''x'' (vx ?p) (position (mesh obj))))" by blast
  have other: "data_vector d2 ''rotation'' = data_vector (data obj) ''rotation''"
     "data_vector d2 ''scale'' = data_vector (data obj) ''scale''"
    using data_vector_set_other[OF d1(1)] data_vector_set_other[OF d2(1)] by simp_all
  have "set_axis ''z'' (vz ?p) (set_axis ''x'' (vx ?p) (position (mesh obj))) = ?p"
    by (simp add: set_axis_def snapPosition_def)
  with d1 d2 other dv show ?thesis
    by (simp add: snapObject_def Let_def in_sync_def)
qed

lemma create_in_sync:
  assumes "create type pos ident now rnd = Inr obj"
  shows "in_sync obj"
  using assms
  by (auto simp: create_def in_sync_def data_vector_def xyz_def Vector3_new_def
      split: property.splits sum.splits option.splits)

text \<open>
  Claim C4, as the code has it. \<open>create\<close> returns an entity whose data holds the
  position, rotation and scale of its mesh; \<open>PropertyUpdater.update\<close>, when it completes,
  and \<open>GridManager.snapObject\<close> keep them identical.
\<close>

theorem transform_writes_keep_data_in_sync:
  "(create type pos ident now rnd = Inr obj \<longrightarrow> in_sync obj) \<and>
   (in_sync obj \<and> PropertyUpdater_update js obj property v = Done obj' \<longrightarrow> in_sync obj') \<and>
   (in_sync obj \<longrightarrow> (\<exists>obj'. snapObject js (Some obj) = Done (Some obj') \<and> in_sync obj'))"
  using create_in_sync update_preserves_sync snapObject_preserves_sync by blast

lemma create_example_box:
  "create (Str ''box'') Vector3_new (Str ''a'') 0 [] = Inr example_box"
  by (simp add: create_def config_for_def lookup_property_def OBJECT_TYPES_def
      MaterialsLibrary_get_def createMaterials_def box_def example_box_def Vector3_new_def xyz_def)

lemma update_example_box:
  "PropertyUpdater_update example_platform example_box ''x'' (num 5)
     = Done (example_box\<lparr>mesh := (mesh example_box)\<lparr>position := \<lparr>vx = num 5, vy = num 0, vz = num 0\<rparr>\<rparr>,
          data := Obj
        [(''type'', Str ''box''),
         (''position'', Obj [(''x'', num 5), (''y'', num 0), (''z'', num 0)]),
         (''rotation'', Obj [(''x'', num 0), (''y'', num 0), (''z'', num 0)]),
         (''scale'', Obj [(''x'', num 1), (''y'', num 1), (''z'', num 1)]),
         (''materialType'', Str ''obstacle''),
         (''size'', Obj [(''width'', num 2), (''height'', num 2), (''depth'', num 2)]),
         (''customData'', Obj [])]\<rparr>)"
  by (simp add: PropertyUpdater_update_def write_both_def set_data_component_def set_axis_def
      example_box_def example_platform_def Let_def)

theorem transform_writes_keep_data_in_sync_witness:
  "create (Str ''box'') Vector3_new (Str ''a'') 0 [] = Inr example_box \<and>
   in_sync example_box \<and>
   PropertyUpdater_update example_platform example_box ''x'' (num 5)
     = Done (example_box\<lparr>mesh := (mesh example_box)\<lparr>position := \<lparr>vx = num 5, vy = num 0, vz = num 0\<rparr>\<rparr>,
          data := Obj
        [(''type'', Str ''box''),
         (''position'', Obj [(''x'', num 5), (''y'', num 0), (''z'', num 0)]),
         (''rotation'', Obj [(''x'', num 0), (''y'', num 0), (''z'', num 0)]),
         (''scale'', Obj [(''x'', num 1), (''y'', num 1), (''z'', num 1)]),
         (''materialType'', Str ''obstacle''),
         (''size'', Obj [(''width'', num 2), (''height'', num 2), (''depth'', num 2)]),
         (''customData'', Obj [])]\<rparr>) \<and>
   in_sync (example_box\<lparr>mesh := (mesh example_box)\<lparr>position := \<lparr>vx = num 5, vy = num 0, vz = num 0\<rparr>\<rparr>,
          data := Obj
        [(''type'', Str ''box''),
         (''position'', Obj [(''x'', num 5), (''y'', num 0), (''z'', num 0)]),
         (''rotation'', Obj [(''x'', num 0), (''y'', num 0), (''z'', num 0)]),
         (''scale'', Obj [(''x'', num 1), (''y'', num 1), (''z'', num 1)]),
         (''materialType'', Str ''obstacle''),
         (''size'', Obj [(''width'', num 2), (''height'', num 2), (''depth'', num 2)]),
         (''customData'', Obj [])]\<rparr>) \<and>
   snapObject example_platform (Some example_box) = Done (Some example_box)"
  using transform_writes_keep_data_in_sync [of "Str ''box''" Vector3_new "Str ''a''" 0 "[]" example_box
      example_platform "''x''" "num 5"]
    create_example_box update_example_box
  by (simp add: snapObject_def snapPosition_def set_data_component_def example_box_def
      example_platform_def Let_def)

text \<open>
  Claim C4 as stated fails for \<open>SetPositionCommand\<close>: \<open>execute\<close> writes the position of
  the mesh and leaves \<open>data.position\<close> as it was, so the box moved to \<open>(5, 0, 5)\<close> still
  has \<open>data.position = (0, 0, 0)\<close>.
\<close>

theorem SetPosition_execute_drifts:
  "create (Str ''box'') Vector3_new (Str ''a'') 0 [] = Inr example_box \<and>
   in_sync example_box \<and>
   SetPositionCommand_new example_editor (Some 0) (Some example_target) None = Inr example_move \<and>
   SetPosition_execute example_move example_editor
     = Done (example_editor\<lparr>store := (store example_editor)(0 := Wrapper moved_box),
          signals := [objectChanged 0]\<rparr>) \<and>
   \<not> in_sync moved_box"
  using create_example_box
  by (simp add: in_sync_def data_vector_def SetPositionCommand_new_def SetPosition_execute_def
      set_mesh_position_def example_move_def example_editor_def moved_box_def example_box_def
      example_target_def Vector3_new_def num_def)

section \<open>Restoring a scene from JSON text\<close>

lemma deepClone_json: "json_value v \<Longrightarrow> deepClone v = Inr v"
  using JSON_parse_stringify[of v 0] by (auto simp: deepClone_def)

lemma fromArray_triple: "fromArray (triple_array t) = Inr (triple_vector t)"
  by (cases t) (simp add: fromArray_def triple_array_def triple_vector_def)

lemma create_Inr:
  assumes "create type pos ident now rnd = Inr obj"
  shows "position (mesh obj) = pos"
  using assms by (auto simp: create_def split: property.splits sum.splits)

lemma within_tolerance_refl [simp]: "within_tolerance (Num n) n"
  by (simp add: within_tolerance_def)

lemma transform_close_triple [simp]: "transform_close (triple_vector t) t"
  by (cases t) (simp add: transform_close_def triple_vector_def)

lemma material_lookup:
  assumes "ToPropertyKey mt \<notin> set Object_prototype_names"
  shows "MaterialsLibrary_has mt \<longrightarrow> (\<exists>m. MaterialsLibrary_get mt = Inr (Some m))"
  using assms
  by (auto simp: MaterialsLibrary_has_def MaterialsLibrary_get_def lookup_property_def
      split: option.splits)

lemma restore_snapshot_entry:
  assumes "entity_data (s_data s)"
  shows "\<exists>obj. restore_object env (snapshot_entry s) = Inr obj \<and> agrees s obj \<and>
     position (mesh obj) = triple_vector (s_position s) \<and>
     rotation (mesh obj) = triple_vector (s_rotation s) \<and>
     scale (mesh obj) = triple_vector (s_scale s)"
proof -
  from assms obtain ps where d: "s_data s = Obj ps" "json_value (Obj ps)"
    and ty: "ToPropertyKey (case map_of ps ''type'' of Some t \<Rightarrow> t | None \<Rightarrow> Undefined)
             \<notin> set Object_prototype_names"
    and mt: "ToPropertyKey (case map_of ps ''materialType'' of Some t \<Rightarrow> t | None \<Rightarrow> Undefined)
             \<notin> set Object_prototype_names"
    by (auto simp: entity_data_def split: jsval.splits)
  let ?type = "case map_of ps ''type'' of Some t \<Rightarrow> t | None \<Rightarrow> Undefined"
  let ?mt = "case map_of ps ''materialType'' of Some t \<Rightarrow> t | None \<Rightarrow> Undefined"
  have g1: "get_member (snapshot_entry s) ''data'' = Inr (Obj ps)"
    "get_member (snapshot_entry s) ''position'' = Inr (triple_array (s_position s))"
    "get_member (snapshot_entry s) ''id'' = Inr (s_id s)"
    "get_member (snapshot_entry s) ''rotation'' = Inr (triple_array (s_rotation s))"
    "get_member (snapshot_entry s) ''scale'' = Inr (triple_array (s_scale s))"
    using d(1) by (simp_all add: snapshot_entry_def)
  have g2: "get_member (Obj ps) ''type'' = Inr ?type" "get_member (Obj ps) ''materialType'' = Inr ?mt"
    by (simp_all split: option.splits)
  obtain obj0 where c: "create ?type (triple_vector (s_position s)) (s_id s) (fst env) (snd env) = Inr obj0"
    using create_succeeds[OF ty] by blast
  have p0: "position (mesh obj0) = triple_vector (s_position s)" using create_Inr[OF c] .
  have dc: "deepClone (Obj ps) = Inr (Obj ps)" using deepClone_json[OF d(2)] .
  show ?thesis
  proof (cases "MaterialsLibrary_has ?mt")
    case True
    then obtain m where "MaterialsLibrary_get ?mt = Inr (Some m)" using material_lookup[OF mt] by blast
    with True g1 g2 c dc p0 d(1) show ?thesis
      by (simp add: restore_object_def fromArray_triple agrees_def del: get_member.simps)
  next
    case False
    with g1 g2 c dc p0 d(1) show ?thesis
      by (simp add: restore_object_def fromArray_triple agrees_def del: get_member.simps)
  qed
qed

lemma load_snapshot_entries:
  assumes "scene_snapshot S"
  shows "\<exists>objs. load_objects env i (map snapshot_entry S) acc = Done (acc @ objs) \<and> list_all2 agrees S objs"
  using assms
proof (induction S arbitrary: i acc)
  case Nil
  then show ?case by simp
next
  case (Cons s S)
  then have "entity_data (s_data s)" "scene_snapshot S" by (simp_all add: scene_snapshot_def)
  from restore_snapshot_entry[OF this(1), of "env i"] obtain obj where
    obj: "restore_object (env i) (snapshot_entry s) = Inr obj" "agrees s obj" by blast
  from Cons.IH[OF \<open>scene_snapshot S\<close>, of "Suc i" "acc @ [obj]"] obtain objs where
    "load_objects env (Suc i) (map snapshot_entry S) (acc @ [obj]) = Done ((acc @ [obj]) @ objs)"
    "list_all2 agrees S objs" by blast
  with obj show ?case by (intro exI[of _ "obj # objs"]) simp
qed

lemma json_value_triple [simp]: "json_value (triple_array t)"
  by (cases t) (simp add: triple_array_def)

lemma json_values_entries:
  "scene_snapshot S \<Longrightarrow> json_values (map snapshot_entry S)"
  by (induction S) (auto simp: scene_snapshot_def snapshot_entry_def entity_data_def)

lemma json_value_snapshot_state: "scene_snapshot S \<Longrightarrow> json_value (snapshot_state S)"
  by (simp add: snapshot_state_def json_values_entries)














lemma scene_snapshot_example: "scene_snapshot example_snapshot"
  by (simp add: scene_snapshot_def example_snapshot_def entity_data_def example_box_def
      Object_prototype_names_def num_def)



lemma deepClone_empty_state: "deepClone empty_state = Inr empty_state"
  by (rule deepClone_json) (simp add: empty_state_def)







section \<open>The snapshot history\<close>

lemma saveState_fresh_state:
  "\<not> canUndo (state_of (saveState decompose objs (SceneSerializer_new n))) \<and>
   \<not> canRedo (state_of (saveState decompose objs (SceneSerializer_new n)))"
  by (auto simp: saveState_def SceneSerializer_new_def UndoManager_new_def setLimit_def
      canUndo_def canRedo_def hasUndo_def hasRedo_def dispatchStateChanged_def Let_def
      split: sum.splits)

lemma saveState_fresh_Done:
  assumes "saveState decompose objs (SceneSerializer_new n) = Done s1"
  shows "\<exists>a. lastState s1 = Some a \<and> undoManager s1 = setLimit n UndoManager_new \<and>
     events s1 = [(False, False)]"
  using assms
  by (auto simp: saveState_def SceneSerializer_new_def UndoManager_new_def setLimit_def
      canUndo_def canRedo_def hasUndo_def hasRedo_def dispatchStateChanged_def Let_def
      split: sum.splits)

lemma saveState_second_Done:
  assumes "lastState s1 = Some a" "undoManager s1 = setLimit n UndoManager_new"
    "saveState decompose objs s1 = Done s2"
  shows "\<exists>b. lastState s2 = Some b \<and> canUndo s2 \<and> \<not> canRedo s2 \<and>
     commands (undoManager s2) = [\<lparr>prevState = a, currState = b\<rparr>]"
  using assms
  by (auto simp: saveState_def UndoManager_new_def setLimit_def add_def
      canUndo_def canRedo_def hasUndo_def hasRedo_def dispatchStateChanged_def Let_def
      split: sum.splits)

text \<open>
  Claim C10. After the first \<open>saveState\<close> on a new serializer \<open>canUndo\<close> and \<open>canRedo\<close> are
  both false, whether or not the call completes. When it completes, the snapshot is the
  baseline in \<open>lastState\<close>, the history is empty and the one event dispatched reports
  \<open>(false, false)\<close>; a second \<open>saveState\<close>, which finds that snapshot, adds the one
  undo/redo pair from it to the new snapshot.
\<close>

theorem first_saveState_creates_no_undo_entry:
  "\<not> canUndo (state_of (saveState decompose objs (SceneSerializer_new n :: 'w SceneSerializer))) \<and>
   \<not> canRedo (state_of (saveState decompose objs (SceneSerializer_new n :: 'w SceneSerializer))) \<and>
   (saveState decompose objs (SceneSerializer_new n :: 'w SceneSerializer) = Done s1 \<longrightarrow>
      (\<exists>a. lastState s1 = Some a) \<and> commands (undoManager s1) = [] \<and> events s1 = [(False, False)]) \<and>
   (saveState decompose objs (SceneSerializer_new n :: 'w SceneSerializer) = Done s1 \<and> saveState decompose objs' s1 = Done s2 \<longrightarrow>
      canUndo s2 \<and> \<not> canRedo s2 \<and>
      (\<exists>a b. lastState s1 = Some a \<and> lastState s2 = Some b \<and>
         commands (undoManager s2) = [\<lparr>prevState = a, currState = b\<rparr>]))"
proof (intro conjI impI)
  show "\<not> canUndo (state_of (saveState decompose objs (SceneSerializer_new n)))"
    "\<not> canRedo (state_of (saveState decompose objs (SceneSerializer_new n)))"
    using saveState_fresh_state by blast+
next
  assume a: "saveState decompose objs (SceneSerializer_new n) = Done s1"
  from saveState_fresh_Done[OF a]
  show "\<exists>a. lastState s1 = Some a" "commands (undoManager s1) = []" "events s1 = [(False, False)]"
    by (auto simp: setLimit_def UndoManager_new_def)
next
  assume a: "saveState decompose objs (SceneSerializer_new n) = Done s1 \<and> saveState decompose objs' s1 = Done s2"
  from saveState_fresh_Done[of decompose objs n s1] a obtain x where
    x: "lastState s1 = Some x" "undoManager s1 = setLimit n UndoManager_new" by blast
  from saveState_second_Done[OF x, of decompose objs' s2] a x(1)
  show "canUndo s2" "\<not> canRedo s2"
    "\<exists>a b. lastState s1 = Some a \<and> lastState s2 = Some b \<and>
         commands (undoManager s2) = [\<lparr>prevState = a, currState = b\<rparr>]"
    by auto
qed

lemma history_ok_new: "history_ok (setLimit n UndoManager_new)"
  by (simp add: history_ok_def setLimit_def UndoManager_new_def)

lemma history_ok_add: "history_ok um \<Longrightarrow> history_ok (add c um)"
  by (auto simp: history_ok_def add_def Let_def)

lemma saveState_history_ok:
  "history_ok (undoManager s) \<Longrightarrow> history_ok (undoManager (state_of (saveState decompose objs s)))"
  by (auto simp: saveState_def dispatchStateChanged_def Let_def history_ok_add
      split: sum.splits option.splits)

lemma command_at_undo:
  "history_ok (undoManager s) \<Longrightarrow> canUndo s \<Longrightarrow>
   command_at (undoManager s) (index (undoManager s))
     = Some (commands (undoManager s) ! nat (index (undoManager s)))"
  by (auto simp: history_ok_def canUndo_def hasUndo_def command_at_def)

lemma command_at_redo:
  "history_ok (undoManager s) \<Longrightarrow> canRedo s \<Longrightarrow>
   command_at (undoManager s) (index (undoManager s) + 1)
     = Some (commands (undoManager s) ! nat (index (undoManager s) + 1))"
  by (auto simp: history_ok_def canRedo_def hasRedo_def command_at_def)

lemma undo_history_ok:
  assumes "history_ok (undoManager s)"
  shows "history_ok (undoManager (fst (snd (state_of (SceneSerializer_undo s w)))))"
proof (cases "canUndo s")
  case False
  then show ?thesis using assms by (simp add: SceneSerializer_undo_def)
next
  case True
  have i: "0 \<le> index (undoManager s)" using True assms by (auto simp: canUndo_def hasUndo_def history_ok_def)
  show ?thesis
  proof (cases "call_loadScene s (prevState (commands (undoManager s) ! nat (index (undoManager s)))) w")
    case (Done w')
    then show ?thesis using True assms i command_at_undo[OF assms True]
      by (simp add: SceneSerializer_undo_def run_closure_def Let_def dispatchStateChanged_def history_ok_def)
  next
    case (Threw e w')
    then show ?thesis using True assms command_at_undo[OF assms True]
      by (simp add: SceneSerializer_undo_def run_closure_def Let_def history_ok_def)
  qed
qed

lemma redo_history_ok:
  assumes "history_ok (undoManager s)"
  shows "history_ok (undoManager (fst (snd (state_of (SceneSerializer_redo s w)))))"
proof (cases "canRedo s")
  case False
  then show ?thesis using assms by (simp add: SceneSerializer_redo_def)
next
  case True
  have i: "index (undoManager s) + 1 < int (length (commands (undoManager s)))"
    using True by (auto simp: canRedo_def hasRedo_def)
  show ?thesis
  proof (cases "call_loadScene s (currState (commands (undoManager s) ! nat (index (undoManager s) + 1))) w")
    case (Done w')
    then show ?thesis using True assms i command_at_redo[OF assms True]
      by (simp add: SceneSerializer_redo_def run_closure_def Let_def dispatchStateChanged_def history_ok_def)
  next
    case (Threw e w')
    then show ?thesis using True assms command_at_redo[OF assms True]
      by (simp add: SceneSerializer_redo_def run_closure_def Let_def history_ok_def)
  qed
qed

lemma run_closure_Done:
  assumes "call_loadScene s st w = Done w'"
  shows "\<exists>s'. run_closure st step s w = Done (s', w') \<and> lastState s' = Some st \<and>
      index (undoManager s') = index (undoManager s) + step \<and>
      commands (undoManager s') = commands (undoManager s) \<and>
      isExecuting (undoManager s') = False"
  using assms by (simp add: run_closure_def Let_def dispatchStateChanged_def call_loadScene_def)

text \<open>
  Claim C7. \<open>undo\<close> returns \<open>null\<close> and changes nothing when \<open>canUndo\<close> is false, and so
  does \<open>redo\<close> when \<open>canRedo\<close> is false. Otherwise, in a history whose index is in range
  (as it is after every operation, by the lemmas above) and with a callback that
  completes, \<open>undo\<close> loads the previous snapshot of the command at the index, makes it
  \<open>lastState\<close>, returns it and moves the index down, so that a redo is available; \<open>redo\<close>
  does the same with the current snapshot of the next command and moves the index up.
\<close>

theorem undo_redo_noop_or_transition:
  "(\<not> canUndo s \<longrightarrow> SceneSerializer_undo s w = Done (None, s, w)) \<and>
   (\<not> canRedo s \<longrightarrow> SceneSerializer_redo s w = Done (None, s, w)) \<and>
   (canUndo s \<and> history_ok (undoManager s) \<and>
    c = commands (undoManager s) ! nat (index (undoManager s)) \<and>
    call_loadScene s (prevState c) w = Done w' \<longrightarrow>
      (\<exists>s'. SceneSerializer_undo s w = Done (Some (prevState c), s', w') \<and>
         lastState s' = Some (prevState c) \<and>
         index (undoManager s') = index (undoManager s) - 1 \<and>
         commands (undoManager s') = commands (undoManager s) \<and> canRedo s')) \<and>
   (canRedo s \<and> history_ok (undoManager s) \<and>
    c = commands (undoManager s) ! nat (index (undoManager s) + 1) \<and>
    call_loadScene s (currState c) w = Done w' \<longrightarrow>
      (\<exists>s'. SceneSerializer_redo s w = Done (Some (currState c), s', w') \<and>
         lastState s' = Some (currState c) \<and>
         index (undoManager s') = index (undoManager s) + 1 \<and>
         commands (undoManager s') = commands (undoManager s) \<and> canUndo s'))"
proof (intro conjI impI)
  show "\<not> canUndo s \<Longrightarrow> SceneSerializer_undo s w = Done (None, s, w)"
    by (simp add: SceneSerializer_undo_def)
  show "\<not> canRedo s \<Longrightarrow> SceneSerializer_redo s w = Done (None, s, w)"
    by (simp add: SceneSerializer_redo_def)
next
  assume a: "canUndo s \<and> history_ok (undoManager s) \<and>
    c = commands (undoManager s) ! nat (index (undoManager s)) \<and>
    call_loadScene s (prevState c) w = Done w'"
  then have ca: "command_at (undoManager s) (index (undoManager s)) = Some c"
    using command_at_undo by blast
  from a obtain s' where s': "run_closure (prevState c) (- 1) s w = Done (s', w')"
    "lastState s' = Some (prevState c)" "index (undoManager s') = index (undoManager s) + (- 1)"
    "commands (undoManager s') = commands (undoManager s)"
    using run_closure_Done[of s "prevState c" w w' "- 1"] by blast
  have "canRedo s'" using s'(3,4) a by (auto simp: canRedo_def hasRedo_def history_ok_def)
  with a ca s' show "\<exists>s'. SceneSerializer_undo s w = Done (Some (prevState c), s', w') \<and>
         lastState s' = Some (prevState c) \<and>
         index (undoManager s') = index (undoManager s) - 1 \<and>
         commands (undoManager s') = commands (undoManager s) \<and> canRedo s'"
    by (simp add: SceneSerializer_undo_def)
next
  assume a: "canRedo s \<and> history_ok (undoManager s) \<and>
    c = commands (undoManager s) ! nat (index (undoManager s) + 1) \<and>
    call_loadScene s (currState c) w = Done w'"
  then have ca: "command_at (undoManager s) (index (undoManager s) + 1) = Some c"
    using command_at_redo by blast
  from a obtain s' where s': "run_closure (currState c) 1 s w = Done (s', w')"
    "lastState s' = Some (currState c)" "index (undoManager s') = index (undoManager s) + 1"
    "commands (undoManager s') = commands (undoManager s)"
    using run_closure_Done[of s "currState c" w w' 1] by blast
  have "canUndo s'" using s'(3,4) a by (auto simp: canUndo_def hasUndo_def history_ok_def)
  with a ca s' show "\<exists>s'. SceneSerializer_redo s w = Done (Some (currState c), s', w') \<and>
         lastState s' = Some (currState c) \<and>
         index (undoManager s') = index (undoManager s) + 1 \<and>
         commands (undoManager s') = commands (undoManager s) \<and> canUndo s'"
    by (simp add: SceneSerializer_redo_def)
qed

lemma serialize_example_box:
  "serializeObjects local_transform [example_box] = Inr (snapshot_state example_snapshot)"
proof -
  have "json_value (data example_box)" by (simp add: example_box_def num_def)
  from deepClone_json[OF this] show ?thesis
    by (simp add: serializeObjects_def serializeObject_def local_transform_def snapshot_state_def
        snapshot_entry_def example_snapshot_def triple_array_def toArray_def)
       (simp add: example_box_def num_def)
qed

lemma saveState_example_first:
  "saveState local_transform [example_box] (SceneSerializer_new 50)
     = Done ((SceneSerializer_new 50)\<lparr>lastState := Some (snapshot_state example_snapshot),
          events := [(False, False)]\<rparr>)"
  using deepClone_json[OF json_value_snapshot_state[OF scene_snapshot_example]]
  by (simp add: saveState_def serialize_example_box dispatchStateChanged_def SceneSerializer_new_def
      canUndo_def canRedo_def hasUndo_def hasRedo_def UndoManager_new_def setLimit_def)



lemma saveState_example_second:
  "\<exists>s2. saveState local_transform [] ((SceneSerializer_new 50)\<lparr>lastState := Some (snapshot_state example_snapshot),
          events := [(False, False)]\<rparr>) = Done s2"
  using deepClone_empty_state
  by (simp add: saveState_def serializeObjects_def empty_state_def)

theorem first_saveState_creates_no_undo_entry_witness:
  "\<exists>s1 s2. saveState local_transform [example_box]
       (SceneSerializer_new 50 :: editor_object list SceneSerializer) = Done s1 \<and>
     saveState local_transform [] s1 = Done s2 \<and>
     \<not> canUndo s1 \<and> \<not> canRedo s1 \<and> lastState s1 = Some (snapshot_state example_snapshot) \<and>
     commands (undoManager s1) = [] \<and> events s1 = [(False, False)] \<and>
     canUndo s2 \<and> \<not> canRedo s2 \<and> lastState s2 = Some empty_state \<and>
     commands (undoManager s2) = [\<lparr>prevState = snapshot_state example_snapshot, currState = empty_state\<rparr>]"
proof -
  define s1 :: "editor_object list SceneSerializer" where
    "s1 = (SceneSerializer_new 50)\<lparr>lastState := Some (snapshot_state example_snapshot),
          events := [(False, False)]\<rparr>"
  have f1: "saveState local_transform [example_box] (SceneSerializer_new 50) = Done s1"
    unfolding s1_def by (rule saveState_example_first)
  obtain s2 where f2: "saveState local_transform [] s1 = Done s2"
    unfolding s1_def using saveState_example_second by blast
  have l1: "lastState s1 = Some (snapshot_state example_snapshot)" by (simp add: s1_def)
  have l2: "lastState s2 = Some empty_state"
    using f2 deepClone_empty_state
    by (auto simp: saveState_def serializeObjects_def empty_state_def dispatchStateChanged_def s1_def)
  have st: "state_of (saveState local_transform [example_box] (SceneSerializer_new 50)) = s1"
    by (simp add: f1)
  note inst = first_saveState_creates_no_undo_entry [of local_transform "[example_box]" 50 s1 "[]" s2]
  have a: "\<not> canUndo s1" "\<not> canRedo s1" using inst[unfolded st] by blast+
  have b: "commands (undoManager s1) = []" "events s1 = [(False, False)]" using inst f1 by blast+
  have c: "canUndo s2" "\<not> canRedo s2" using inst f1 f2 by blast+
  have "\<exists>a b. lastState s1 = Some a \<and> lastState s2 = Some b \<and>
         commands (undoManager s2) = [\<lparr>prevState = a, currState = b\<rparr>]"
    using inst f1 f2 by blast
  then have d: "commands (undoManager s2)
      = [\<lparr>prevState = snapshot_state example_snapshot, currState = empty_state\<rparr>]"
    using l1 l2 by auto
  show ?thesis using f1 f2 a b c d l1 l2 by blast
qed

lemma loadScene_empty_state: "loadScene env empty_state live = Done []"
  by (simp add: loadScene_def empty_state_def)

lemma example_entry:
  "\<lparr>prevState = empty_state, currState = snapshot_state example_snapshot\<rparr>
     = commands (undoManager example_serializer) ! nat (index (undoManager example_serializer))"
  "\<lparr>prevState = empty_state, currState = snapshot_state example_snapshot\<rparr>
     = commands (undoManager example_undone) ! nat (index (undoManager example_undone) + 1)"
  by (simp_all add: example_serializer_def example_undone_def)

lemma example_history:
  "history_ok (undoManager example_serializer)" "history_ok (undoManager example_undone)"
  by (simp_all add: history_ok_def example_serializer_def example_undone_def)

lemma example_availability:
  "canUndo example_serializer" "\<not> canRedo example_serializer"
  "canRedo example_undone" "\<not> canUndo example_undone"
  "\<not> canUndo (SceneSerializer_new 50)" "\<not> canRedo (SceneSerializer_new 50)"
  by (simp_all add: canUndo_def canRedo_def hasUndo_def hasRedo_def example_serializer_def
      example_undone_def SceneSerializer_new_def UndoManager_new_def setLimit_def)

theorem undo_redo_noop_or_transition_witness:
  "\<not> canUndo (SceneSerializer_new 50 :: editor_object list SceneSerializer) \<and>
   SceneSerializer_undo (SceneSerializer_new 50) [example_box]
     = Done (None, SceneSerializer_new 50, [example_box]) \<and>
   \<not> canRedo example_serializer \<and>
   SceneSerializer_redo example_serializer [example_box] = Done (None, example_serializer, [example_box]) \<and>
   canUndo example_serializer \<and> history_ok (undoManager example_serializer) \<and>
   (\<exists>s'. SceneSerializer_undo example_serializer [example_box] = Done (Some empty_state, s', []) \<and>
      lastState s' = Some empty_state \<and> index (undoManager s') = - 1) \<and>
   canRedo example_undone \<and> history_ok (undoManager example_undone) \<and>
   (\<exists>s' objs. SceneSerializer_redo example_undone []
        = Done (Some (snapshot_state example_snapshot), s', objs) \<and>
      list_all2 agrees example_snapshot objs \<and>
      lastState s' = Some (snapshot_state example_snapshot) \<and> index (undoManager s') = 0)"
proof -
  let ?c = "\<lparr>prevState = empty_state, currState = snapshot_state example_snapshot\<rparr>"
  have cb1: "call_loadScene example_serializer (prevState ?c) [example_box] = Done []"
    by (simp add: call_loadScene_def example_serializer_def loadScene_empty_state)
  obtain objs where objs: "loadScene example_env (snapshot_state example_snapshot) [] = Done objs"
    "list_all2 agrees example_snapshot objs"
    using load_snapshot_entries[OF scene_snapshot_example, of example_env 0 "[]"]
    by (auto simp: loadScene_def snapshot_state_def)
  have cb2: "call_loadScene example_undone (currState ?c) [] = Done objs"
    using objs(1) by (simp add: call_loadScene_def example_undone_def example_serializer_def)
  note n1 = undo_redo_noop_or_transition
    [of "SceneSerializer_new 50 :: editor_object list SceneSerializer" "[example_box]"]
  note n2 = undo_redo_noop_or_transition [of example_serializer "[example_box]" ?c "[]"]
  note n3 = undo_redo_noop_or_transition [of example_undone "[]" ?c objs]
  have a: "SceneSerializer_undo (SceneSerializer_new 50 :: editor_object list SceneSerializer) [example_box]
     = Done (None, SceneSerializer_new 50, [example_box])"
    using n1 example_availability(5) by blast
  have b: "SceneSerializer_redo example_serializer [example_box] = Done (None, example_serializer, [example_box])"
    using n2 example_availability(2) by blast
  have "\<exists>s'. SceneSerializer_undo example_serializer [example_box] = Done (Some (prevState ?c), s', []) \<and>
         lastState s' = Some (prevState ?c) \<and>
         index (undoManager s') = index (undoManager example_serializer) - 1 \<and>
         commands (undoManager s') = commands (undoManager example_serializer) \<and> canRedo s'"
    using n2 example_availability(1) example_entry(1) example_history(1) cb1 by blast
  then have c: "\<exists>s'. SceneSerializer_undo example_serializer [example_box] = Done (Some empty_state, s', []) \<and>
      lastState s' = Some empty_state \<and> index (undoManager s') = - 1"
    by (auto simp: example_serializer_def)
  have "\<exists>s'. SceneSerializer_redo example_undone [] = Done (Some (currState ?c), s', objs) \<and>
         lastState s' = Some (currState ?c) \<and>
         index (undoManager s') = index (undoManager example_undone) + 1 \<and>
         commands (undoManager s') = commands (undoManager example_undone) \<and> canUndo s'"
    using n3 example_availability(3) example_entry(2) example_history(2) cb2 by blast
  then have d: "\<exists>s' objs. SceneSerializer_redo example_undone []
        = Done (Some (snapshot_state example_snapshot), s', objs) \<and>
      list_all2 agrees example_snapshot objs \<and>
      lastState s' = Some (snapshot_state example_snapshot) \<and> index (undoManager s') = 0"
    using objs(2) by (auto simp: example_undone_def example_serializer_def)
  show ?thesis using a b c d example_availability example_history by blast
qed

end
